theory Spec2Isabelle
  imports Main "HOL-Library.Word"
begin

section \<open>The EncryptedDAO contract\<close>

text \<open>
  The contract is the Solidity source \<^verbatim>\<open>EncryptedDAO\<close> (pragma \<^verbatim>\<open>^0.8.24\<close>).
  Storage is a record that every external function receives and returns; a \<^verbatim>\<open>require\<close>
  that fails, and an arithmetic overflow (Solidity 0.8 checks \<^verbatim>\<open>+\<close> and \<^verbatim>\<open>++\<close>),
  is an error value and no state is returned: the transaction is reverted.
  A Solidity \<^verbatim>\<open>mapping\<close> is a total function whose default is the zero value.
\<close>

type_synonym uint256 = "256 word"
type_synonym address = "160 word"
type_synonym bytes = "8 word list"

subsection \<open>The FHE library, on plaintexts\<close>

text \<open>
  The FHE library (\<^verbatim>\<open>@fhevm/solidity\<close>) is a dependency of the contract and not part of
  its sources. Its operations are modelled from the spec, on plaintexts: an \<^verbatim>\<open>euint32\<close>
  handle is represented by the 32-bit plaintext it stands for, an \<^verbatim>\<open>ebool\<close> by a
  \<open>bool\<close>. The access control list that \<^verbatim>\<open>FHE.allow\<close> and \<^verbatim>\<open>FHE.allowThis\<close> write
  lives in the co-processor, not in the storage of the contract: here these calls, and the
  operations on handles, always return and leave the storage as it is.
\<close>

type_synonym euint32 = "32 word"
type_synonym ebool = bool

text \<open>
  Modelled from the spec: an externally supplied ciphertext comes with a validity proof.
  It is the plaintext together with the input proof that was issued for it.
\<close>

record externalEuint32 =
  ext_plain :: "32 word"
  ext_proof :: bytes

text \<open>Modelled from the spec: the trivial encryption of a constant ("an encrypted zero").\<close>

definition FHE_asEuint32 :: "32 word \<Rightarrow> euint32" where
  "FHE_asEuint32 v = v"

text \<open>
  Modelled from the spec: \<^verbatim>\<open>FHE.fromExternal\<close> "converts the externally-supplied
  ciphertext+proof into an internally trusted ciphertext (rejecting it if the proof
  fails)". No result is the rejection, which reverts the call.
\<close>

definition FHE_fromExternal :: "externalEuint32 \<Rightarrow> bytes \<Rightarrow> euint32 option" where
  "FHE_fromExternal encryptedVote voteProof =
     (if voteProof = ext_proof encryptedVote then Some (ext_plain encryptedVote) else None)"

text \<open>Modelled from the spec: the encrypted predicate "ballot equals 1" or "equals 0".\<close>

definition FHE_eq :: "euint32 \<Rightarrow> euint32 \<Rightarrow> ebool" where
  "FHE_eq a b = (a = b)"

text \<open>Modelled from the spec: the "encrypted 0/1 contribution" chosen by a predicate.\<close>

definition FHE_select :: "ebool \<Rightarrow> euint32 \<Rightarrow> euint32 \<Rightarrow> euint32" where
  "FHE_select c a b = (if c then a else b)"

text \<open>
  Modelled from the spec: homomorphic addition of "an encrypted 32-bit counter value";
  on 32 bits it wraps modulo \<open>2 ^ 32\<close>.
\<close>

definition FHE_add :: "euint32 \<Rightarrow> euint32 \<Rightarrow> euint32" where
  "FHE_add a b = a + b"

subsection \<open>Storage\<close>

record Proposal =
  id_field :: uint256
  proposer :: address
  description :: string
  startTime :: uint256
  endTime :: uint256
  executed :: bool
  encryptedYesVotes :: euint32
  encryptedNoVotes :: euint32
  totalVoters :: uint256

record Member =
  isMember :: bool
  joinTime :: uint256

datatype event =
    ProposalCreated uint256 address string uint256 uint256
  | VoteCast uint256 address
  | MemberAdded address

record dao =
  proposals :: "uint256 \<Rightarrow> Proposal"
  hasVoted :: "uint256 \<Rightarrow> address \<Rightarrow> bool"
  members :: "address \<Rightarrow> Member"
  proposalCounter :: uint256
  memberCounter :: uint256
  events :: "event list"

text \<open>The transaction context: \<^verbatim>\<open>msg.sender\<close> and \<^verbatim>\<open>block.timestamp\<close>.\<close>

record env =
  msg_sender :: address
  block_timestamp :: uint256

datatype error =
    NotMember              \<comment> \<open>"Not a DAO member"\<close>
  | InvalidProposalId      \<comment> \<open>"Invalid proposal ID"\<close>
  | AlreadyMember          \<comment> \<open>"Already a member"\<close>
  | DurationTooShort       \<comment> \<open>"Voting duration too short"\<close>
  | EmptyDescription       \<comment> \<open>"Description cannot be empty"\<close>
  | VotingNotStarted       \<comment> \<open>"Voting not started"\<close>
  | VotingEndedError       \<comment> \<open>"Voting ended"\<close>
  | AlreadyVoted           \<comment> \<open>"Already voted"\<close>
  | AlreadyExecuted        \<comment> \<open>"Proposal already executed"\<close>
  | InvalidProof           \<comment> \<open>\<^verbatim>\<open>FHE.fromExternal\<close> rejects the input proof\<close>
  | Overflow               \<comment> \<open>\<^verbatim>\<open>Panic(0x11)\<close> of checked arithmetic\<close>

definition MIN_VOTING_DURATION :: uint256 where
  "MIN_VOTING_DURATION = 86400"  \<comment> \<open>\<^verbatim>\<open>1 days\<close>\<close>

text \<open>Checked addition of Solidity 0.8: no result when the sum leaves \<^verbatim>\<open>uint256\<close>.\<close>

definition checked_add :: "uint256 \<Rightarrow> uint256 \<Rightarrow> uint256 option" where
  "checked_add a b = (if unat a + unat b < 2 ^ 256 then Some (a + b) else None)"

definition zero_Proposal :: Proposal where
  "zero_Proposal = \<lparr> id_field = 0, proposer = 0, description = [], startTime = 0, endTime = 0,
     executed = False, encryptedYesVotes = 0, encryptedNoVotes = 0, totalVoters = 0 \<rparr>"

definition zero_Member :: Member where
  "zero_Member = \<lparr> isMember = False, joinTime = 0 \<rparr>"

subsection \<open>Modifiers\<close>

definition onlyMember :: "env \<Rightarrow> dao \<Rightarrow> bool" where
  "onlyMember e s = isMember (members s (msg_sender e))"

definition validProposal :: "uint256 \<Rightarrow> dao \<Rightarrow> bool" where
  "validProposal proposalId s = (proposalId > 0 \<and> proposalId \<le> proposalCounter s)"

subsection \<open>Constructor and state-changing functions\<close>

definition constructor :: "env \<Rightarrow> dao" where
  "constructor e =
     \<lparr> proposals = (\<lambda>_. zero_Proposal),
       hasVoted = (\<lambda>_ _. False),
       members = (\<lambda>_. zero_Member)
         (msg_sender e := \<lparr> isMember = True, joinTime = block_timestamp e \<rparr>),
       proposalCounter = 0,
       memberCounter = 1,
       events = [] \<rparr>"

definition joinDAO :: "env \<Rightarrow> dao \<Rightarrow> error + dao" where
  "joinDAO e s =
     (if isMember (members s (msg_sender e)) then Inl AlreadyMember
      else case checked_add (memberCounter s) 1 of
             None \<Rightarrow> Inl Overflow
           | Some c \<Rightarrow>
               Inr (s\<lparr> members := (members s)
                          (msg_sender e := \<lparr> isMember = True, joinTime = block_timestamp e \<rparr>),
                        memberCounter := c,
                        events := events s @ [MemberAdded (msg_sender e)] \<rparr>))"

definition addMember :: "env \<Rightarrow> address \<Rightarrow> dao \<Rightarrow> error + dao" where
  "addMember e newMember s =
     (if \<not> onlyMember e s then Inl NotMember
      else if isMember (members s newMember) then Inl AlreadyMember
      else case checked_add (memberCounter s) 1 of
             None \<Rightarrow> Inl Overflow
           | Some c \<Rightarrow>
               Inr (s\<lparr> members := (members s)
                          (newMember := \<lparr> isMember = True, joinTime = block_timestamp e \<rparr>),
                        memberCounter := c,
                        events := events s @ [MemberAdded newMember] \<rparr>))"

text \<open>\<^verbatim>\<open>createProposal\<close> returns the new id together with the new storage.\<close>

definition createProposal :: "env \<Rightarrow> string \<Rightarrow> uint256 \<Rightarrow> dao \<Rightarrow> error + (uint256 \<times> dao)" where
  "createProposal e descr votingDuration s =
     (if \<not> onlyMember e s then Inl NotMember
      else if \<not> votingDuration \<ge> MIN_VOTING_DURATION then Inl DurationTooShort
      else if \<not> length descr > 0 then Inl EmptyDescription
      else case checked_add (proposalCounter s) 1 of
             None \<Rightarrow> Inl Overflow
           | Some proposalId \<Rightarrow>
              (case checked_add (block_timestamp e) votingDuration of
                 None \<Rightarrow> Inl Overflow
               | Some endT \<Rightarrow>
                   Inr (proposalId,
                        s\<lparr> proposalCounter := proposalId,
                           proposals := (proposals s)
                             (proposalId :=
                                \<lparr> id_field = proposalId,
                                  proposer = msg_sender e,
                                  description = descr,
                                  startTime = block_timestamp e,
                                  endTime = endT,
                                  executed = False,
                                  encryptedYesVotes = FHE_asEuint32 0,
                                  encryptedNoVotes = FHE_asEuint32 0,
                                  totalVoters = 0 \<rparr>),
                           events := events s @
                             [ProposalCreated proposalId (msg_sender e) descr
                                (block_timestamp e) endT] \<rparr>)))"

definition castVote :: "env \<Rightarrow> uint256 \<Rightarrow> externalEuint32 \<Rightarrow> bytes \<Rightarrow> dao \<Rightarrow> error + dao" where
  "castVote e proposalId encryptedVote voteProof s =
     (if \<not> validProposal proposalId s then Inl InvalidProposalId
      else if \<not> onlyMember e s then Inl NotMember
      else
       (let proposal = proposals s proposalId in
        if \<not> block_timestamp e \<ge> startTime proposal then Inl VotingNotStarted
        else if \<not> block_timestamp e \<le> endTime proposal then Inl VotingEndedError
        else if hasVoted s proposalId (msg_sender e) then Inl AlreadyVoted
        else if executed proposal then Inl AlreadyExecuted
        else case FHE_fromExternal encryptedVote voteProof of
               None \<Rightarrow> Inl InvalidProof
             | Some vote \<Rightarrow>
                (let isYesBool = FHE_eq vote (FHE_asEuint32 1);
                     isNoBool = FHE_eq vote (FHE_asEuint32 0);
                     isYes = FHE_select isYesBool (FHE_asEuint32 1) (FHE_asEuint32 0);
                     isNo = FHE_select isNoBool (FHE_asEuint32 1) (FHE_asEuint32 0);
                     yesVotes = FHE_add (encryptedYesVotes proposal) isYes;
                     noVotes = FHE_add (encryptedNoVotes proposal) isNo
                 in case checked_add (totalVoters proposal) 1 of
                      None \<Rightarrow> Inl Overflow
                    | Some voters \<Rightarrow>
                        Inr (s\<lparr> proposals := (proposals s)
                                   (proposalId := proposal
                                      \<lparr> encryptedYesVotes := yesVotes,
                                        encryptedNoVotes := noVotes,
                                        totalVoters := voters \<rparr>),
                                 hasVoted := (hasVoted s)
                                   (proposalId := (hasVoted s proposalId) (msg_sender e := True)),
                                 events := events s @ [VoteCast proposalId (msg_sender e)] \<rparr>))))"

definition grantDecryptionAccess :: "env \<Rightarrow> uint256 \<Rightarrow> dao \<Rightarrow> error + dao" where
  "grantDecryptionAccess e proposalId s =
     (if \<not> validProposal proposalId s then Inl InvalidProposalId
      else if \<not> onlyMember e s then Inl NotMember
      else Inr s)"

subsection \<open>View functions\<close>

definition getProposal ::
  "uint256 \<Rightarrow> dao \<Rightarrow> error + (uint256 \<times> address \<times> string \<times> uint256 \<times> uint256 \<times> bool \<times> uint256)" where
  "getProposal proposalId s =
     (if \<not> validProposal proposalId s then Inl InvalidProposalId
      else let proposal = proposals s proposalId in
        Inr (id_field proposal, proposer proposal, description proposal, startTime proposal,
             endTime proposal, executed proposal, totalVoters proposal))"

definition getEncryptedVotes :: "uint256 \<Rightarrow> dao \<Rightarrow> error + (euint32 \<times> euint32)" where
  "getEncryptedVotes proposalId s =
     (if \<not> validProposal proposalId s then Inl InvalidProposalId
      else let proposal = proposals s proposalId in
        Inr (encryptedYesVotes proposal, encryptedNoVotes proposal))"

definition isVotingEnded :: "env \<Rightarrow> uint256 \<Rightarrow> dao \<Rightarrow> error + bool" where
  "isVotingEnded e proposalId s =
     (if \<not> validProposal proposalId s then Inl InvalidProposalId
      else Inr (block_timestamp e > endTime (proposals s proposalId)))"

definition checkHasVoted :: "uint256 \<Rightarrow> address \<Rightarrow> dao \<Rightarrow> error + bool" where
  "checkHasVoted proposalId voter s =
     (if \<not> validProposal proposalId s then Inl InvalidProposalId
      else Inr (hasVoted s proposalId voter))"

definition isMember_view :: "address \<Rightarrow> dao \<Rightarrow> bool" where
  "isMember_view addr s = isMember (members s addr)"

definition getProposalCount :: "dao \<Rightarrow> uint256" where
  "getProposalCount s = proposalCounter s"

definition getMemberCount :: "dao \<Rightarrow> uint256" where
  "getMemberCount s = memberCounter s"

subsection \<open>Transactions and reachable states\<close>

datatype call =
    JoinDAO
  | AddMember address
  | CreateProposal string uint256
  | CastVote uint256 externalEuint32 bytes
  | GrantDecryptionAccess uint256

fun execute :: "env \<Rightarrow> call \<Rightarrow> dao \<Rightarrow> error + dao" where
  "execute e JoinDAO s = joinDAO e s"
| "execute e (AddMember a) s = addMember e a s"
| "execute e (CreateProposal d n) s = map_sum (\<lambda>x. x) snd (createProposal e d n s)"
| "execute e (CastVote p x pr) s = castVote e p x pr s"
| "execute e (GrantDecryptionAccess p) s = grantDecryptionAccess e p s"

text \<open>A transaction that reverts leaves the storage as it was.\<close>

definition transact :: "env \<Rightarrow> call \<Rightarrow> dao \<Rightarrow> dao" where
  "transact e c s = (case execute e c s of Inl _ \<Rightarrow> s | Inr s' \<Rightarrow> s')"

text \<open>
  The states the contract can be in: the one the constructor leaves, and every state a
  successful transaction leaves from one of them. The parameter \<open>B\<close> is the set of
  plaintexts that voters encrypt; \<open>UNIV\<close> puts no restriction on the ballots.
\<close>

fun ballot_in :: "32 word set \<Rightarrow> call \<Rightarrow> bool" where
  "ballot_in B (CastVote p x pr) = (ext_plain x \<in> B)"
| "ballot_in B _ = True"

inductive reachable :: "32 word set \<Rightarrow> dao \<Rightarrow> bool" for B :: "32 word set" where
  init: "reachable B (constructor e)"
| step: "reachable B s \<Longrightarrow> ballot_in B c \<Longrightarrow> execute e c s = Inr s' \<Longrightarrow> reachable B s'"

text \<open>One successful transaction, and any number of them.\<close>

definition tx_step :: "dao \<Rightarrow> dao \<Rightarrow> bool" where
  "tx_step s s' = (\<exists>e c. execute e c s = Inr s')"

definition tx_steps :: "dao \<Rightarrow> dao \<Rightarrow> bool" where
  "tx_steps = rtranclp tx_step"

text \<open>
  The states that \<open>n\<close> successful transactions after the deployment lead to.
\<close>

inductive reachable_in :: "nat \<Rightarrow> dao \<Rightarrow> bool" where
  init: "reachable_in 0 (constructor e)"
| step: "reachable_in n s \<Longrightarrow> execute e c s = Inr s' \<Longrightarrow> reachable_in (Suc n) s'"

subsection \<open>Vote receipts and the storage invariant\<close>

text \<open>The voters whose receipt for proposal \<open>p\<close> is recorded.\<close>

definition receipts :: "dao \<Rightarrow> uint256 \<Rightarrow> address set" where
  "receipts s p = {v. hasVoted s p v}"

text \<open>
  \<^verbatim>\<open>totalVoters\<close> counts the receipts of its proposal, and receipts exist for created
  proposals only.
\<close>

definition storage_inv :: "dao \<Rightarrow> bool" where
  "storage_inv s =
     ((\<forall>p. unat (totalVoters (proposals s p)) = card (receipts s p)) \<and>
      (\<forall>p v. hasVoted s p v \<longrightarrow> validProposal p s))"

subsection \<open>The ballots behind the receipts\<close>

text \<open>
  The contract stores no plaintext of a ballot. To say which counter a receipt was counted
  in, a reachable state is paired with a record of the plaintexts that the accepted
  \<^verbatim>\<open>castVote\<close> calls carried: for proposal \<open>p\<close> and voter \<open>v\<close>, the ballot of
  \<open>v\<close> on \<open>p\<close>, if \<open>v\<close> has voted. The record is kept beside the storage and
  read by no function of the contract.
\<close>

type_synonym ballots = "uint256 \<Rightarrow> address \<Rightarrow> 32 word option"

fun record_ballot :: "env \<Rightarrow> call \<Rightarrow> ballots \<Rightarrow> ballots" where
  "record_ballot e (CastVote p x pr) g = g(p := (g p)(msg_sender e \<mapsto> ext_plain x))"
| "record_ballot e JoinDAO g = g"
| "record_ballot e (AddMember a) g = g"
| "record_ballot e (CreateProposal d n) g = g"
| "record_ballot e (GrantDecryptionAccess p) g = g"

inductive reachable_with :: "dao \<Rightarrow> ballots \<Rightarrow> bool" where
  init: "reachable_with (constructor e) (\<lambda>_ _. None)"
| step: "reachable_with s g \<Longrightarrow> execute e c s = Inr s' \<Longrightarrow>
         reachable_with s' (record_ballot e c g)"

text \<open>The voters whose ballot on proposal \<open>p\<close> was \<open>b\<close>.\<close>

definition voters_of :: "ballots \<Rightarrow> uint256 \<Rightarrow> 32 word \<Rightarrow> address set" where
  "voters_of g p b = {v. g p v = Some b}"

text \<open>
  A receipt exists exactly for the voters with a recorded ballot, and each counter is the
  number of voters whose ballot was its value (modulo \<open>2 ^ 32\<close>).
\<close>

definition ballots_inv :: "dao \<Rightarrow> ballots \<Rightarrow> bool" where
  "ballots_inv s g =
     ((\<forall>p v. hasVoted s p v \<longleftrightarrow> g p v \<noteq> None) \<and>
      (\<forall>p. encryptedYesVotes (proposals s p) = of_nat (card (voters_of g p 1)) \<and>
           encryptedNoVotes (proposals s p) = of_nat (card (voters_of g p 0))))"

subsection \<open>A small run of the contract\<close>

text \<open>
  Alice deploys the contract at time 1000 and creates a proposal of one day at once;
  at time 2000 she casts a ballot of plaintext \<open>b\<close>.
\<close>

definition alice :: address where "alice = 1"
definition bob :: address where "bob = 2"

definition env_at :: "address \<Rightarrow> uint256 \<Rightarrow> env" where
  "env_at a t = \<lparr> msg_sender = a, block_timestamp = t \<rparr>"

definition ballot :: "32 word \<Rightarrow> externalEuint32" where
  "ballot b = \<lparr> ext_plain = b, ext_proof = [] \<rparr>"

definition dao0 :: dao where
  "dao0 = constructor (env_at alice 1000)"

definition dao1 :: dao where
  "dao1 = transact (env_at alice 1000) (CreateProposal ''Proposal'' 86400) dao0"

definition dao2 :: "32 word \<Rightarrow> dao" where
  "dao2 b = transact (env_at alice 2000) (CastVote 1 (ballot b) []) dao1"

text \<open>The ballots behind the receipts of \<open>dao2 b\<close>.\<close>

definition ballots2 :: "32 word \<Rightarrow> ballots" where
  "ballots2 b = (\<lambda>_ _. None)(1 := (\<lambda>_. None)(alice \<mapsto> b))"

section \<open>The dashboard hook: decryption and vote requests\<close>

text \<open>
  The React hook \<^verbatim>\<open>useEncryptedDAO\<close>. One record holds what the hook can read: the
  parameters of its last render, its memo value, its refs, the refs of the wallet hook, the
  current values of its state variables, and the values that the \<^verbatim>\<open>decryptVotes\<close>
  callback in use has captured. A state setter changes the current value at once; a
  callback reads the values of the render that created it, and they change at the next
  render only. A ref is read as it is now. An \<^verbatim>\<open>async\<close> function is a request in
  flight: a record of the values its closure captured and of the \<^verbatim>\<open>await\<close> it is
  suspended at. It advances when the awaited promise settles, with the settled value as
  input; between two such steps anything else may happen to the hook.
\<close>

type_synonym signer = nat  \<comment> \<open>an \<^verbatim>\<open>ethers.JsonRpcSigner\<close> object, by its identity\<close>

datatype clear_value = ClearString string | ClearBigint int | ClearBoolean bool

record ClearValueType =
  handle :: string
  clear :: "clear_value option"  \<comment> \<open>\<^verbatim>\<open>res[handle]\<close> is \<^verbatim>\<open>undefined\<close> for a missing key\<close>

text \<open>
  A dependency array compares objects by identity: an object is kept with the number of
  its allocation.
\<close>

type_synonym 'a object = "nat \<times> 'a"

text \<open>
  The text shown to the user. The result line formats the two decrypted values with
  \<^verbatim>\<open>Number\<close> and \<^verbatim>\<open>toFixed\<close>; it is kept as the two values. The line of a missing
  deployment is kept as the chain id.
\<close>

datatype message =
    Text string
  | Results "clear_value option" "clear_value option"
  | DeploymentNotFound nat

type_synonym proposal_ui = "int \<times> string \<times> string \<times> int \<times> int \<times> bool \<times> int"

text \<open>
  What the \<^verbatim>\<open>decryptVotes\<close> callback has captured of the state variables. The
  parameters it captured are those of the last render, since all of them are in its
  dependency array.
\<close>

record decrypt_closure =
  seen_selectedProposalId :: "int option"
  seen_yesVotesHandle :: "string option"
  seen_noVotesHandle :: "string option"
  seen_clearYesVotes :: "ClearValueType object option"
  seen_clearNoVotes :: "ClearValueType object option"

record hook_state =
  fhevm_instance :: "nat option"           \<comment> \<open>parameter \<^verbatim>\<open>instance\<close>, by its identity\<close>
  chainId :: "nat option"
  ethersSigner :: "signer option"
  ethersReadonlyProvider :: "nat option"
  encryptedDAO_address :: "string option"  \<comment> \<open>\<^verbatim>\<open>encryptedDAO.address\<close>\<close>
  encryptedDAORef_address :: "string option"  \<comment> \<open>\<^verbatim>\<open>encryptedDAORef.current?.address\<close>\<close>
  active_chainId :: "nat option"           \<comment> \<open>what \<^verbatim>\<open>sameChain.current\<close> compares with\<close>
  active_signer :: "signer option"         \<comment> \<open>what \<^verbatim>\<open>sameSigner.current\<close> compares with\<close>
  proposals_ui :: "proposal_ui list"
  selectedProposalId :: "int option"
  yesVotesHandle :: "string option"
  noVotesHandle :: "string option"
  clearYesVotes :: "ClearValueType object option"
  clearNoVotes :: "ClearValueType object option"
  isRefreshing :: bool
  isDecrypting :: bool
  isVoting :: bool
  message :: message
  isRefreshingRef :: bool
  isDecryptingRef :: bool
  isVotingRef :: bool
  decryptVotes_closure :: decrypt_closure
  allocations :: nat

text \<open>JavaScript truthiness of an optional string, bigint and number.\<close>

definition truthy_string :: "string option \<Rightarrow> bool" where
  "truthy_string x = (case x of None \<Rightarrow> False | Some v \<Rightarrow> v \<noteq> [])"

definition truthy_bigint :: "int option \<Rightarrow> bool" where
  "truthy_bigint x = (case x of None \<Rightarrow> False | Some v \<Rightarrow> v \<noteq> 0)"

definition truthy_number :: "nat option \<Rightarrow> bool" where
  "truthy_number x = (case x of None \<Rightarrow> False | Some v \<Rightarrow> v \<noteq> 0)"

datatype 'a settled = Fulfilled 'a | Rejected string

text \<open>
  Modelled from the spec: \<^verbatim>\<open>sameChain\<close> is a ref to a function that the wallet hook
  supplies. Following the spec's staleness ("the active chain, account, or target contract
  address changed"), it compares its argument with the chain that is active now.
\<close>

definition sameChain :: "hook_state \<Rightarrow> nat option \<Rightarrow> bool" where
  "sameChain h c = (c = active_chainId h)"

text \<open>
  Modelled from the spec: \<^verbatim>\<open>sameSigner\<close>, supplied by the wallet hook as well, compares
  its argument with the signer (the account) that is active now.
\<close>

definition sameSigner :: "hook_state \<Rightarrow> signer option \<Rightarrow> bool" where
  "sameSigner h sg = (sg = active_signer h)"

subsection \<open>Rendering\<close>

definition ZeroAddress :: string where
  "ZeroAddress = ''0x0000000000000000000000000000000000000000''"

text \<open>
  \<^verbatim>\<open>getEncryptedDAOByChainId\<close> returns the address and the chain id of the deployment.
  The table of deployments is generated; \<open>entry\<close> is the address of its entry for the
  chain, if that entry has one.
\<close>

definition getEncryptedDAOByChainId ::
  "nat option \<Rightarrow> string option \<Rightarrow> string option \<times> nat option" where
  "getEncryptedDAOByChainId c entry =
     (if \<not> truthy_number c then (None, None)
      else if entry = None \<or> entry = Some ZeroAddress then (None, c)
      else (entry, c))"

text \<open>
  The memo \<^verbatim>\<open>encryptedDAO\<close>, computed when \<^verbatim>\<open>chainId\<close> has changed: it sets the ref and
  reports a chain without deployment.
\<close>

definition encryptedDAO_memo :: "nat option \<Rightarrow> string option \<Rightarrow> hook_state \<Rightarrow> hook_state" where
  "encryptedDAO_memo c entry h =
     (case getEncryptedDAOByChainId c entry of
        (a, k) \<Rightarrow>
          (let h1 = h\<lparr> encryptedDAO_address := a, encryptedDAORef_address := a \<rparr> in
           case k of
             Some n \<Rightarrow>
               if \<not> truthy_string a \<or> a = Some ZeroAddress
               then h1\<lparr> message := DeploymentNotFound n \<rparr> else h1
           | None \<Rightarrow> h1))"

text \<open>The values of the state variables that a new \<^verbatim>\<open>decryptVotes\<close> callback captures.\<close>

definition capture :: "hook_state \<Rightarrow> decrypt_closure" where
  "capture h =
     \<lparr> seen_selectedProposalId = selectedProposalId h,
       seen_yesVotesHandle = yesVotesHandle h,
       seen_noVotesHandle = noVotesHandle h,
       seen_clearYesVotes = clearYesVotes h,
       seen_clearNoVotes = clearNoVotes h \<rparr>"

text \<open>
  One render with the parameters \<open>c\<close>, \<open>sg\<close>, \<open>inst\<close>, \<open>prov\<close>. The memo is computed
  again when \<^verbatim>\<open>chainId\<close> has changed. \<^verbatim>\<open>useCallback\<close> makes a new \<^verbatim>\<open>decryptVotes\<close>
  when one of its dependencies (signer, address, instance, the two handles, chain id, the
  two clear values) differs from the one of the callback in use, and keeps that callback
  otherwise: \<^verbatim>\<open>selectedProposalId\<close> is not among the dependencies.
\<close>

definition render ::
  "nat option \<Rightarrow> signer option \<Rightarrow> nat option \<Rightarrow> nat option \<Rightarrow> string option \<Rightarrow>
   hook_state \<Rightarrow> hook_state" where
  "render c sg inst prov entry h =
     (let h1 = (if c \<noteq> chainId h then encryptedDAO_memo c entry h else h);
          changed =
            (sg \<noteq> ethersSigner h \<or>
             encryptedDAO_address h1 \<noteq> encryptedDAO_address h \<or>
             inst \<noteq> fhevm_instance h \<or>
             yesVotesHandle h \<noteq> seen_yesVotesHandle (decryptVotes_closure h) \<or>
             noVotesHandle h \<noteq> seen_noVotesHandle (decryptVotes_closure h) \<or>
             c \<noteq> chainId h \<or>
             map_option fst (clearYesVotes h) \<noteq>
               map_option fst (seen_clearYesVotes (decryptVotes_closure h)) \<or>
             map_option fst (clearNoVotes h) \<noteq>
               map_option fst (seen_clearNoVotes (decryptVotes_closure h)));
          h2 = h1\<lparr> chainId := c, ethersSigner := sg, fhevm_instance := inst,
                    ethersReadonlyProvider := prov \<rparr>
      in if changed then h2\<lparr> decryptVotes_closure := capture h2 \<rparr> else h2)"

subsection \<open>\<^verbatim>\<open>refreshProposals\<close> and \<^verbatim>\<open>loadVoteHandles\<close>\<close>

text \<open>
  Each is split at its contract reads: what runs before them, and what runs when they
  have settled. The first half reads the address and the provider that the callback
  captured, and says whether the reads were started.
\<close>

definition refreshProposals_begin ::
  "string option \<Rightarrow> nat option \<Rightarrow> hook_state \<Rightarrow> hook_state \<times> bool" where
  "refreshProposals_begin address provider h =
     (if \<not> truthy_string address \<or> provider = None
      then (h, False)
      else (h\<lparr> isRefreshingRef := True, isRefreshing := True \<rparr>, True))"

definition refreshProposals_end :: "proposal_ui list settled \<Rightarrow> hook_state \<Rightarrow> hook_state" where
  "refreshProposals_end r h =
     (case r of
        Fulfilled proposalList \<Rightarrow>
          h\<lparr> proposals_ui := proposalList, isRefreshingRef := False, isRefreshing := False \<rparr>
      | Rejected err \<Rightarrow>
          h\<lparr> message := Text (''Failed to load proposals: '' @ err),
             isRefreshingRef := False, isRefreshing := False \<rparr>)"

definition loadVoteHandles_begin :: "string option \<Rightarrow> nat option \<Rightarrow> bool" where
  "loadVoteHandles_begin address provider =
     (\<not> (\<not> truthy_string address \<or> provider = None))"

definition loadVoteHandles_end ::
  "int \<Rightarrow> (string \<times> string) settled \<Rightarrow> hook_state \<Rightarrow> hook_state" where
  "loadVoteHandles_end proposalId r h =
     (case r of
        Fulfilled (yesHandle, noHandle) \<Rightarrow>
          h\<lparr> yesVotesHandle := Some yesHandle,
             noVotesHandle := Some noHandle,
             selectedProposalId := Some proposalId,
             clearYesVotes := None,
             clearNoVotes := None,
             message := Text ''Vote handles loaded. Click 'Decrypt Results' to view updated totals.'' \<rparr>
      | Rejected err \<Rightarrow> h\<lparr> message := Text (''Failed to load vote handles: '' @ err) \<rparr>)"

subsection \<open>\<^verbatim>\<open>decryptVotes\<close>\<close>

record FhevmDecryptionSignature =
  privateKey :: string
  publicKey :: string
  signature :: string
  contractAddresses :: "string list"
  userAddress :: string
  startTimestamp :: nat
  durationDays :: nat

datatype decrypt_phase =
    AwaitGrant        \<comment> \<open>\<^verbatim>\<open>await writeContract.grantDecryptionAccess(...)\<close>\<close>
  | AwaitGrantMined   \<comment> \<open>\<^verbatim>\<open>await authTx.wait()\<close>\<close>
  | AwaitSignature    \<comment> \<open>\<^verbatim>\<open>await FhevmDecryptionSignature.loadOrSign(...)\<close>\<close>
  | AwaitUserDecrypt  \<comment> \<open>\<^verbatim>\<open>await instance.userDecrypt(...)\<close>\<close>

record decrypt_run =
  thisChainId :: "nat option"
  thisDAOAddress :: string
  thisYesHandle :: string
  thisNoHandle :: string
  thisEthersSigner :: signer
  d_phase :: decrypt_phase

datatype decrypt_input =
    GrantSent "string settled"          \<comment> \<open>the transaction hash\<close>
  | GrantMined "unit settled"
  | SignatureBuilt "FhevmDecryptionSignature option settled"
  | UserDecrypted "(string \<Rightarrow> clear_value option) settled"

definition isStale_decrypt :: "decrypt_run \<Rightarrow> hook_state \<Rightarrow> bool" where
  "isStale_decrypt r h =
     (Some (thisDAOAddress r) \<noteq> encryptedDAORef_address h \<or>
      \<not> sameChain h (thisChainId r) \<or>
      \<not> sameSigner h (Some (thisEthersSigner r)))"

text \<open>The \<^verbatim>\<open>finally\<close> block of the request.\<close>

definition decrypt_finally :: "hook_state \<Rightarrow> hook_state" where
  "decrypt_finally h = h\<lparr> isDecryptingRef := False, isDecrypting := False \<rparr>"

text \<open>
  The guard and the synchronous part of \<^verbatim>\<open>decryptVotes\<close>: the hook afterwards, and the
  request it started, if any. The ref is read as it is now, everything else as the
  callback in use captured it.
\<close>

definition decryptVotes :: "hook_state \<Rightarrow> hook_state \<times> decrypt_run option" where
  "decryptVotes h =
     (let seen = decryptVotes_closure h in
      if isDecryptingRef h \<or>
         \<not> truthy_string (seen_yesVotesHandle seen) \<or>
         \<not> truthy_string (seen_noVotesHandle seen) \<or>
         fhevm_instance h = None \<or>
         ethersSigner h = None \<or>
         \<not> truthy_string (encryptedDAO_address h) \<or>
         \<not> truthy_bigint (seen_selectedProposalId seen)
      then (h, None)
      else if seen_yesVotesHandle seen = map_option (handle \<circ> snd) (seen_clearYesVotes seen) \<and>
              seen_noVotesHandle seen = map_option (handle \<circ> snd) (seen_clearNoVotes seen)
      then (h, None)
      else
        (case (encryptedDAO_address h, seen_yesVotesHandle seen, seen_noVotesHandle seen,
               ethersSigner h) of
           (Some a, Some y, Some n, Some sg) \<Rightarrow>
             (h\<lparr> isDecryptingRef := True, isDecrypting := True,
                 message := Text ''Authorizing and starting decryption...'' \<rparr>,
              Some \<lparr> thisChainId = chainId h, thisDAOAddress = a, thisYesHandle = y,
                     thisNoHandle = n, thisEthersSigner = sg, d_phase = AwaitGrant \<rparr>)
         | _ \<Rightarrow> (h, None)))"

text \<open>
  One step of the request \<^verbatim>\<open>run\<close>: the awaited promise settles with \<open>inp\<close>. The result is
  the hook afterwards and the request, if it is still in flight. An input that does not
  belong to the \<^verbatim>\<open>await\<close> the request is suspended at is no step.
\<close>

fun decrypt_step ::
  "decrypt_input \<Rightarrow> decrypt_run \<Rightarrow> hook_state \<Rightarrow> (hook_state \<times> decrypt_run option) option" where
  "decrypt_step (GrantSent res) r h =
     (if d_phase r \<noteq> AwaitGrant then None
      else case res of
        Fulfilled txHash \<Rightarrow>
          Some (h\<lparr> message := Text (''Authorizing decryption... tx: '' @ txHash) \<rparr>,
                Some (r\<lparr> d_phase := AwaitGrantMined \<rparr>))
      | Rejected authErr \<Rightarrow> Some (h, Some (r\<lparr> d_phase := AwaitSignature \<rparr>)))"
| "decrypt_step (GrantMined res) r h =
     (if d_phase r \<noteq> AwaitGrantMined then None
      else Some (h, Some (r\<lparr> d_phase := AwaitSignature \<rparr>)))"
| "decrypt_step (SignatureBuilt res) r h =
     (if d_phase r \<noteq> AwaitSignature then None
      else case res of
        Rejected err \<Rightarrow>
          Some (decrypt_finally (h\<lparr> message := Text (''Decryption failed: '' @ err) \<rparr>), None)
      | Fulfilled None \<Rightarrow>
          Some (decrypt_finally
                  (h\<lparr> message := Text ''Unable to build FHEVM decryption signature'' \<rparr>), None)
      | Fulfilled (Some sig) \<Rightarrow>
          if isStale_decrypt r h
          then Some (decrypt_finally (h\<lparr> message := Text ''Ignore FHEVM decryption'' \<rparr>), None)
          else Some (h\<lparr> message := Text ''Calling FHEVM userDecrypt...'' \<rparr>,
                     Some (r\<lparr> d_phase := AwaitUserDecrypt \<rparr>)))"
| "decrypt_step (UserDecrypted res) r h =
     (if d_phase r \<noteq> AwaitUserDecrypt then None
      else case res of
        Rejected err \<Rightarrow>
          Some (decrypt_finally (h\<lparr> message := Text (''Decryption failed: '' @ err) \<rparr>), None)
      | Fulfilled values \<Rightarrow>
          (let h1 = h\<lparr> message := Text ''Decryption completed!'' \<rparr> in
           if isStale_decrypt r h1
           then Some (decrypt_finally (h1\<lparr> message := Text ''Ignore FHEVM decryption'' \<rparr>), None)
           else Some (decrypt_finally
                        (h1\<lparr> clearYesVotes :=
                               Some (allocations h,
                                 \<lparr> handle = thisYesHandle r, clear = values (thisYesHandle r) \<rparr>),
                             clearNoVotes :=
                               Some (Suc (allocations h),
                                 \<lparr> handle = thisNoHandle r, clear = values (thisNoHandle r) \<rparr>),
                             allocations := Suc (Suc (allocations h)),
                             message :=
                               Results (values (thisYesHandle r)) (values (thisNoHandle r)) \<rparr>),
                      None)))"

subsection \<open>\<^verbatim>\<open>castVote\<close> of the hook\<close>

datatype vote_phase =
    AwaitTimer          \<comment> \<open>\<^verbatim>\<open>await new Promise(setTimeout 100)\<close>\<close>
  | AwaitEncrypt        \<comment> \<open>\<^verbatim>\<open>await input.encrypt()\<close>\<close>
  | AwaitVoteSent       \<comment> \<open>\<^verbatim>\<open>await contract.castVote(...)\<close>\<close>
  | AwaitVoteMined      \<comment> \<open>\<^verbatim>\<open>await tx.wait()\<close>\<close>
  | AwaitRefresh bool   \<comment> \<open>\<^verbatim>\<open>await refreshProposals()\<close>; whether its reads started\<close>
  | AwaitLoad bool      \<comment> \<open>\<^verbatim>\<open>await loadVoteHandles(proposalId)\<close>\<close>

text \<open>
  The request captures, with its own constants, the \<^verbatim>\<open>refreshProposals\<close> and
  \<^verbatim>\<open>loadVoteHandles\<close> of the render of its \<^verbatim>\<open>castVote\<close>; they read the address and the
  provider of that render.
\<close>

record vote_run =
  v_thisChainId :: "nat option"
  v_thisDAOAddress :: string
  v_thisEthersSigner :: signer
  v_ethersReadonlyProvider :: "nat option"
  v_proposalId :: int
  v_voteValue :: int
  v_phase :: vote_phase

datatype vote_input =
    TimerFired "string option"   \<comment> \<open>\<^verbatim>\<open>createEncryptedInput\<close> or \<^verbatim>\<open>add32\<close> threw this\<close>
  | Encrypted "(string \<times> string) settled"     \<comment> \<open>\<^verbatim>\<open>handles[0]\<close> and \<^verbatim>\<open>inputProof\<close>\<close>
  | VoteSent "string settled"                  \<comment> \<open>the transaction hash\<close>
  | VoteMined "string settled"                 \<comment> \<open>the receipt's status\<close>
  | Refreshed "proposal_ui list settled"
  | HandlesLoaded "(string \<times> string) settled"

definition isStale_vote :: "vote_run \<Rightarrow> hook_state \<Rightarrow> bool" where
  "isStale_vote r h =
     (Some (v_thisDAOAddress r) \<noteq> encryptedDAORef_address h \<or>
      \<not> sameChain h (v_thisChainId r) \<or>
      \<not> sameSigner h (Some (v_thisEthersSigner r)))"

definition vote_finally :: "hook_state \<Rightarrow> hook_state" where
  "vote_finally h = h\<lparr> isVotingRef := False, isVoting := False \<rparr>"

definition vote_failed :: "string \<Rightarrow> hook_state \<Rightarrow> hook_state" where
  "vote_failed err h = vote_finally (h\<lparr> message := Text (''Vote failed: '' @ err) \<rparr>)"

text \<open>The voting value is a JavaScript number; the hook's callers pass 0 or 1.\<close>

definition castVote_hook :: "int \<Rightarrow> int \<Rightarrow> hook_state \<Rightarrow> hook_state \<times> vote_run option" where
  "castVote_hook proposalId voteValue h =
     (if isVotingRef h \<or>
         \<not> truthy_string (encryptedDAO_address h) \<or>
         fhevm_instance h = None \<or>
         ethersSigner h = None \<or>
         (voteValue \<noteq> 0 \<and> voteValue \<noteq> 1)
      then (h, None)
      else
        (case (encryptedDAO_address h, ethersSigner h) of
           (Some a, Some sg) \<Rightarrow>
             (h\<lparr> isVotingRef := True, isVoting := True,
                 message := Text (''Encrypting vote ('' @
                   (if voteValue = 1 then ''Yes'' else ''No'') @ '')...'') \<rparr>,
              Some \<lparr> v_thisChainId = chainId h, v_thisDAOAddress = a, v_thisEthersSigner = sg,
                     v_ethersReadonlyProvider = ethersReadonlyProvider h,
                     v_proposalId = proposalId, v_voteValue = voteValue, v_phase = AwaitTimer \<rparr>)
         | _ \<Rightarrow> (h, None)))"

text \<open>The tail of the request after \<^verbatim>\<open>loadVoteHandles\<close> has returned.\<close>

definition vote_done :: "hook_state \<Rightarrow> hook_state" where
  "vote_done h =
     vote_finally (h\<lparr> clearYesVotes := None, clearNoVotes := None,
                      message := Text ''Vote submitted. Please decrypt results again.'' \<rparr>)"

fun vote_step ::
  "vote_input \<Rightarrow> vote_run \<Rightarrow> hook_state \<Rightarrow> (hook_state \<times> vote_run option) option" where
  "vote_step (TimerFired thrown) r h =
     (if v_phase r \<noteq> AwaitTimer then None
      else case thrown of
        Some err \<Rightarrow> Some (vote_failed err h, None)
      | None \<Rightarrow> Some (h, Some (r\<lparr> v_phase := AwaitEncrypt \<rparr>)))"
| "vote_step (Encrypted res) r h =
     (if v_phase r \<noteq> AwaitEncrypt then None
      else case res of
        Rejected err \<Rightarrow> Some (vote_failed err h, None)
      | Fulfilled enc \<Rightarrow>
          if isStale_vote r h
          then Some (vote_finally (h\<lparr> message := Text ''Ignore vote'' \<rparr>), None)
          else Some (h\<lparr> message := Text ''Submitting vote...'' \<rparr>,
                     Some (r\<lparr> v_phase := AwaitVoteSent \<rparr>)))"
| "vote_step (VoteSent res) r h =
     (if v_phase r \<noteq> AwaitVoteSent then None
      else case res of
        Rejected err \<Rightarrow> Some (vote_failed err h, None)
      | Fulfilled txHash \<Rightarrow>
          Some (h\<lparr> message := Text (''Waiting for transaction: '' @ txHash @ ''...'') \<rparr>,
                Some (r\<lparr> v_phase := AwaitVoteMined \<rparr>)))"
| "vote_step (VoteMined res) r h =
     (if v_phase r \<noteq> AwaitVoteMined then None
      else case res of
        Rejected err \<Rightarrow> Some (vote_failed err h, None)
      | Fulfilled status \<Rightarrow>
          (let h1 = h\<lparr> message := Text (''Vote submitted! Status: '' @ status) \<rparr> in
           if isStale_vote r h1
           then Some (vote_finally (h1\<lparr> message := Text ''Ignore vote'' \<rparr>), None)
           else (case refreshProposals_begin (Some (v_thisDAOAddress r))
                        (v_ethersReadonlyProvider r) h1 of
                   (h2, started) \<Rightarrow> Some (h2, Some (r\<lparr> v_phase := AwaitRefresh started \<rparr>)))))"
| "vote_step (Refreshed res) r h =
     (case v_phase r of
        AwaitRefresh started \<Rightarrow>
          (let h1 = (if started then refreshProposals_end res h else h) in
           Some (h1, Some (r\<lparr> v_phase := AwaitLoad
                   (loadVoteHandles_begin (Some (v_thisDAOAddress r))
                      (v_ethersReadonlyProvider r)) \<rparr>)))
      | _ \<Rightarrow> None)"
| "vote_step (HandlesLoaded res) r h =
     (case v_phase r of
        AwaitLoad started \<Rightarrow>
          (let h1 = (if started then loadVoteHandles_end (v_proposalId r) res h else h) in
           Some (vote_done h1, None))
      | _ \<Rightarrow> None)"

subsection \<open>A session\<close>

text \<open>
  A browser session is the hook together with the requests in flight. Its events are
  the calls of \<^verbatim>\<open>decryptVotes\<close> and \<^verbatim>\<open>castVote\<close>, the settling of a promise that a
  request awaits, a render, a change of the wallet (its active chain and signer), and a
  call of \<^verbatim>\<open>loadVoteHandles\<close> or of \<^verbatim>\<open>refreshProposals\<close> from the page, with the
  callbacks of the last render. The other callbacks of the hook (\<^verbatim>\<open>createProposal\<close>,
  \<^verbatim>\<open>joinDAO\<close>, \<^verbatim>\<open>addMember\<close>, \<^verbatim>\<open>refreshMemberStatus\<close>) write state of their own, the
  message line, and the proposal list through \<^verbatim>\<open>refreshProposals\<close>: on the state modelled
  here they act as the last two events.
\<close>

record session =
  hook :: hook_state
  decryptRuns :: "decrypt_run list"
  voteRuns :: "vote_run list"

datatype session_event =
    CallDecryptVotes
  | CallCastVote int int
  | DecryptSettles nat decrypt_input
  | VoteSettles nat vote_input
  | Renders "nat option" "signer option" "nat option" "nat option" "string option"
  | WalletChanges "nat option" "signer option"
  | PageLoadsHandles int "(string \<times> string) settled"
  | PageRefreshes "proposal_ui list settled"
  | OtherCallbackReports message

text \<open>Replace the \<open>i\<close>-th request by its continuation, or drop it when it has finished.\<close>

definition put_run :: "nat \<Rightarrow> 'a option \<Rightarrow> 'a list \<Rightarrow> 'a list" where
  "put_run i r rs = (case r of None \<Rightarrow> take i rs @ drop (Suc i) rs | Some r' \<Rightarrow> rs[i := r'])"

fun session_step :: "session_event \<Rightarrow> session \<Rightarrow> session" where
  "session_step CallDecryptVotes \<sigma> =
     (case decryptVotes (hook \<sigma>) of
        (h, None) \<Rightarrow> \<sigma>\<lparr> hook := h \<rparr>
      | (h, Some r) \<Rightarrow> \<sigma>\<lparr> hook := h, decryptRuns := decryptRuns \<sigma> @ [r] \<rparr>)"
| "session_step (CallCastVote proposalId voteValue) \<sigma> =
     (case castVote_hook proposalId voteValue (hook \<sigma>) of
        (h, None) \<Rightarrow> \<sigma>\<lparr> hook := h \<rparr>
      | (h, Some r) \<Rightarrow> \<sigma>\<lparr> hook := h, voteRuns := voteRuns \<sigma> @ [r] \<rparr>)"
| "session_step (DecryptSettles i inp) \<sigma> =
     (if i < length (decryptRuns \<sigma>)
      then (case decrypt_step inp (decryptRuns \<sigma> ! i) (hook \<sigma>) of
              None \<Rightarrow> \<sigma>
            | Some (h, r) \<Rightarrow> \<sigma>\<lparr> hook := h, decryptRuns := put_run i r (decryptRuns \<sigma>) \<rparr>)
      else \<sigma>)"
| "session_step (VoteSettles i inp) \<sigma> =
     (if i < length (voteRuns \<sigma>)
      then (case vote_step inp (voteRuns \<sigma> ! i) (hook \<sigma>) of
              None \<Rightarrow> \<sigma>
            | Some (h, r) \<Rightarrow> \<sigma>\<lparr> hook := h, voteRuns := put_run i r (voteRuns \<sigma>) \<rparr>)
      else \<sigma>)"
| "session_step (Renders c sg inst prov entry) \<sigma> =
     \<sigma>\<lparr> hook := render c sg inst prov entry (hook \<sigma>) \<rparr>"
| "session_step (WalletChanges c sg) \<sigma> =
     \<sigma>\<lparr> hook := (hook \<sigma>)\<lparr> active_chainId := c, active_signer := sg \<rparr> \<rparr>"
| "session_step (PageLoadsHandles proposalId res) \<sigma> =
     (if loadVoteHandles_begin (encryptedDAO_address (hook \<sigma>))
           (ethersReadonlyProvider (hook \<sigma>))
      then \<sigma>\<lparr> hook := loadVoteHandles_end proposalId res (hook \<sigma>) \<rparr>
      else \<sigma>)"
| "session_step (PageRefreshes res) \<sigma> =
     (case refreshProposals_begin (encryptedDAO_address (hook \<sigma>))
             (ethersReadonlyProvider (hook \<sigma>)) (hook \<sigma>) of
        (h, started) \<Rightarrow> \<sigma>\<lparr> hook := (if started then refreshProposals_end res h else h) \<rparr>)"
| "session_step (OtherCallbackReports m) \<sigma> = \<sigma>\<lparr> hook := (hook \<sigma>)\<lparr> message := m \<rparr> \<rparr>"

text \<open>
  The hook after its first render, with the parameters of that render and the wallet as
  it is then: \<^verbatim>\<open>useState\<close> and \<^verbatim>\<open>useRef\<close> initialise the state and the refs, the memo
  is computed, and the callback captures the initial state.
\<close>

definition initial_hook ::
  "nat option \<Rightarrow> signer option \<Rightarrow> nat option \<Rightarrow> nat option \<Rightarrow> string option \<Rightarrow>
   nat option \<Rightarrow> signer option \<Rightarrow> hook_state" where
  "initial_hook c sg inst prov entry wallet_chain wallet_signer =
     encryptedDAO_memo c entry
       \<lparr> fhevm_instance = inst, chainId = c, ethersSigner = sg, ethersReadonlyProvider = prov,
         encryptedDAO_address = None, encryptedDAORef_address = None,
         active_chainId = wallet_chain, active_signer = wallet_signer,
         proposals_ui = [], selectedProposalId = None,
         yesVotesHandle = None, noVotesHandle = None,
         clearYesVotes = None, clearNoVotes = None,
         isRefreshing = False, isDecrypting = False, isVoting = False,
         message = Text [],
         isRefreshingRef = False, isDecryptingRef = False, isVotingRef = False,
         decryptVotes_closure =
           \<lparr> seen_selectedProposalId = None, seen_yesVotesHandle = None,
             seen_noVotesHandle = None, seen_clearYesVotes = None,
             seen_clearNoVotes = None \<rparr>,
         allocations = 0 \<rparr>"

inductive session_reachable :: "session \<Rightarrow> bool" where
  start: "session_reachable
            \<lparr> hook = initial_hook c sg inst prov entry wallet_chain wallet_signer,
              decryptRuns = [], voteRuns = [] \<rparr>"
| event: "session_reachable \<sigma> \<Longrightarrow> session_reachable (session_step ev \<sigma>)"

subsection \<open>The session invariant, requests that stay in flight, and an example session\<close>

text \<open>
  The refs \<^verbatim>\<open>isDecryptingRef\<close> and \<^verbatim>\<open>isVotingRef\<close> say whether a request of their
  kind is in flight, and there is at most one of each kind.
\<close>

definition session_inv :: "session \<Rightarrow> bool" where
  "session_inv \<sigma> =
     (length (decryptRuns \<sigma>) \<le> 1 \<and> (isDecryptingRef (hook \<sigma>) \<longleftrightarrow> decryptRuns \<sigma> \<noteq> []) \<and>
      length (voteRuns \<sigma>) \<le> 1 \<and> (isVotingRef (hook \<sigma>) \<longleftrightarrow> voteRuns \<sigma> \<noteq> []))"

text \<open>A sequence of events, from left to right.\<close>

definition session_run :: "session_event list \<Rightarrow> session \<Rightarrow> session" where
  "session_run evs \<sigma> = fold session_step evs \<sigma>"




text \<open>
  A session on Sepolia: Alice (signer 1) loads the handles of proposal 1 and asks for
  their decryption; the request has reached \<^verbatim>\<open>userDecrypt\<close>. In \<open>switched_ex\<close> the wallet
  has then switched to Bob (signer 2), in \<open>restored_ex\<close> it has switched back to Alice.
\<close>

definition signature_ex :: FhevmDecryptionSignature where
  "signature_ex = \<lparr> privateKey = ''sk'', publicKey = ''pk'', signature = ''sig'',
     contractAddresses = [''0xDA0''], userAddress = ''0xA11CE'', startTimestamp = 1000,
     durationDays = 365 \<rparr>"

definition values_ex :: "string \<Rightarrow> clear_value option" where
  "values_ex = (\<lambda>_. None)(''0xYES'' := Some (ClearBigint 1), ''0xNO'' := Some (ClearBigint 0))"

definition session0 :: session where
  "session0 = \<lparr> hook = initial_hook (Some 11155111) (Some 1) (Some 0) (Some 0) (Some ''0xDA0'')
                  (Some 11155111) (Some 1),
                decryptRuns = [], voteRuns = [] \<rparr>"

definition loaded_ex :: session where
  "loaded_ex = session_run
     [PageLoadsHandles 1 (Fulfilled (''0xYES'', ''0xNO'')),
      Renders (Some 11155111) (Some 1) (Some 0) (Some 0) (Some ''0xDA0'')] session0"

definition to_userDecrypt :: "session_event list" where
  "to_userDecrypt =
     [DecryptSettles 0 (GrantSent (Fulfilled ''0xTX'')),
      DecryptSettles 0 (GrantMined (Fulfilled ())),
      DecryptSettles 0 (SignatureBuilt (Fulfilled (Some signature_ex)))]"

definition decrypting_ex :: session where
  "decrypting_ex = session_run to_userDecrypt (session_step CallDecryptVotes loaded_ex)"

definition switched_ex :: session where
  "switched_ex = session_step (WalletChanges (Some 11155111) (Some 2)) decrypting_ex"

definition restored_ex :: session where
  "restored_ex = session_step (WalletChanges (Some 11155111) (Some 1)) switched_ex"

text \<open>The request that \<open>loaded_ex\<close> starts, and a session with a vote request in flight.\<close>

definition run_ex :: decrypt_run where
  "run_ex = \<lparr> thisChainId = Some 11155111, thisDAOAddress = ''0xDA0'', thisYesHandle = ''0xYES'',
        thisNoHandle = ''0xNO'', thisEthersSigner = 1, d_phase = AwaitGrant \<rparr>"

definition voting_ex :: session where
  "voting_ex = session_step (CallCastVote 1 1) session0"

section \<open>Properties of the contract\<close>

lemma checked_add_Some:
  "checked_add a b = Some c \<Longrightarrow> c = a + b \<and> unat c = unat a + unat b"
  by (auto simp: checked_add_def unat_word_ariths split: if_splits)

lemma checked_add_one_gt:
  "checked_add a 1 = Some c \<Longrightarrow> a < c"
  by (auto simp: checked_add_def word_less_nat_alt unat_word_ariths split: if_splits)

lemma card_receipts_le: "card (receipts s p) \<le> 2 ^ 160"
proof -
  have "card (receipts s p) \<le> card (UNIV :: address set)"
    by (rule card_mono) simp_all
  then show ?thesis by (simp add: card_word)
qed

lemma storage_inv_constructor: "storage_inv (constructor e)"
  by (simp add: storage_inv_def constructor_def receipts_def zero_Proposal_def)

lemma storage_inv_frame:
  assumes "storage_inv s" and "hasVoted s' = hasVoted s" and "proposals s' = proposals s"
    and "proposalCounter s' = proposalCounter s"
  shows "storage_inv s'"
  using assms by (simp add: storage_inv_def receipts_def validProposal_def)

lemma joinDAO_Inr:
  assumes "joinDAO e s = Inr s'"
  shows "\<not> isMember (members s (msg_sender e))"
    and "hasVoted s' = hasVoted s" and "proposals s' = proposals s"
    and "proposalCounter s' = proposalCounter s"
    and "members s' = (members s)
           (msg_sender e := \<lparr> isMember = True, joinTime = block_timestamp e \<rparr>)"
  using assms by (auto simp: joinDAO_def split: if_splits option.splits)

lemma addMember_Inr:
  assumes "addMember e a s = Inr s'"
  shows "onlyMember e s" and "\<not> isMember (members s a)"
    and "hasVoted s' = hasVoted s" and "proposals s' = proposals s"
    and "proposalCounter s' = proposalCounter s"
    and "members s' = (members s)
           (a := \<lparr> isMember = True, joinTime = block_timestamp e \<rparr>)"
  using assms by (auto simp: addMember_def split: if_splits option.splits)

lemma storage_inv_joinDAO: "storage_inv s \<Longrightarrow> joinDAO e s = Inr s' \<Longrightarrow> storage_inv s'"
  by (rule storage_inv_frame) (simp_all add: joinDAO_Inr)

lemma storage_inv_addMember: "storage_inv s \<Longrightarrow> addMember e a s = Inr s' \<Longrightarrow> storage_inv s'"
  by (rule storage_inv_frame) (simp_all add: addMember_Inr)

lemma storage_inv_grant: "storage_inv s \<Longrightarrow> grantDecryptionAccess e p s = Inr s' \<Longrightarrow> storage_inv s'"
  by (auto simp: grantDecryptionAccess_def split: if_splits)

lemma createProposal_Inr:
  assumes "createProposal e d n s = Inr (i, s')"
  shows "checked_add (proposalCounter s) 1 = Some i"
    and "hasVoted s' = hasVoted s" and "members s' = members s"
    and "proposalCounter s' = i" and "memberCounter s' = memberCounter s"
    and "\<And>p. p \<noteq> i \<Longrightarrow> proposals s' p = proposals s p"
    and "totalVoters (proposals s' i) = 0"
    and "encryptedYesVotes (proposals s' i) = 0"
    and "encryptedNoVotes (proposals s' i) = 0"
  using assms
  by (auto simp: createProposal_def FHE_asEuint32_def split: if_splits option.splits)

lemma storage_inv_createProposal:
  assumes "storage_inv s" and "createProposal e d n s = Inr (i, s')"
  shows "storage_inv s'"
proof -
  note c = createProposal_Inr [OF assms(2)]
  have lt: "proposalCounter s < i" using c(1) by (rule checked_add_one_gt)
  have empty: "receipts s i = {}"
    using assms(1) lt by (auto simp: storage_inv_def receipts_def validProposal_def)
  have r: "\<And>p. receipts s' p = receipts s p" by (simp add: receipts_def c(2))
  have "\<And>p. unat (totalVoters (proposals s' p)) = card (receipts s' p)"
  proof -
    fix p show "unat (totalVoters (proposals s' p)) = card (receipts s' p)"
    proof (cases "p = i")
      case True then show ?thesis by (simp add: r empty c(7))
    next
      case False then show ?thesis using assms(1) by (simp add: r c(6) storage_inv_def)
    qed
  qed
  moreover have "\<And>p v. hasVoted s' p v \<Longrightarrow> validProposal p s'"
    using assms(1) lt by (auto simp: storage_inv_def validProposal_def c(2) c(4))
  ultimately show ?thesis by (simp add: storage_inv_def)
qed

lemma castVote_Inr:
  assumes "castVote e p x pr s = Inr s'"
  shows "validProposal p s" and "onlyMember e s"
    and "startTime (proposals s p) \<le> block_timestamp e"
    and "block_timestamp e \<le> endTime (proposals s p)"
    and "\<not> hasVoted s p (msg_sender e)" and "\<not> executed (proposals s p)"
    and "pr = ext_proof x"
    and "checked_add (totalVoters (proposals s p)) 1 = Some (totalVoters (proposals s' p))"
    and "hasVoted s' = (hasVoted s) (p := (hasVoted s p) (msg_sender e := True))"
    and "members s' = members s"
    and "proposalCounter s' = proposalCounter s" and "memberCounter s' = memberCounter s"
    and "\<And>q. q \<noteq> p \<Longrightarrow> proposals s' q = proposals s q"
    and "encryptedYesVotes (proposals s' p) =
           encryptedYesVotes (proposals s p) + (if ext_plain x = 1 then 1 else 0)"
    and "encryptedNoVotes (proposals s' p) =
           encryptedNoVotes (proposals s p) + (if ext_plain x = 0 then 1 else 0)"
    and "startTime (proposals s' p) = startTime (proposals s p)"
    and "endTime (proposals s' p) = endTime (proposals s p)"
    and "executed (proposals s' p) = executed (proposals s p)"
  using assms
  by (auto simp: castVote_def Let_def FHE_fromExternal_def FHE_eq_def FHE_select_def
        FHE_add_def FHE_asEuint32_def split: if_splits option.splits)

lemma storage_inv_castVote:
  assumes "storage_inv s" and "castVote e p x pr s = Inr s'"
  shows "storage_inv s'"
proof -
  note c = castVote_Inr [OF assms(2)]
  have rp: "receipts s' p = insert (msg_sender e) (receipts s p)"
    by (auto simp: receipts_def c(9))
  have rq: "\<And>q. q \<noteq> p \<Longrightarrow> receipts s' q = receipts s q"
    by (simp add: receipts_def c(9))
  have notin: "msg_sender e \<notin> receipts s p" using c(5) by (simp add: receipts_def)
  have fin: "finite (receipts s p)" by simp
  have "unat (totalVoters (proposals s' p)) = unat (totalVoters (proposals s p)) + unat (1 :: uint256)"
    using checked_add_Some [OF c(8)] by blast
  then have tp: "unat (totalVoters (proposals s' p)) = card (receipts s' p)"
    using assms(1) notin fin by (simp add: rp storage_inv_def)
  have "\<And>q. unat (totalVoters (proposals s' q)) = card (receipts s' q)"
  proof -
    fix q show "unat (totalVoters (proposals s' q)) = card (receipts s' q)"
    proof (cases "q = p")
      case True then show ?thesis using tp by simp
    next
      case False then show ?thesis using assms(1) by (simp add: rq c(13) storage_inv_def)
    qed
  qed
  moreover have "\<And>q v. hasVoted s' q v \<Longrightarrow> validProposal q s'"
    using assms(1) c(1) by (auto simp: storage_inv_def validProposal_def c(9) c(11) split: if_splits)
  ultimately show ?thesis by (simp add: storage_inv_def)
qed

lemma storage_inv_execute:
  "storage_inv s \<Longrightarrow> execute e c s = Inr s' \<Longrightarrow> storage_inv s'"
proof (cases c)
  case (CreateProposal d n)
  assume a: "storage_inv s" "execute e c s = Inr s'"
  then obtain i where "createProposal e d n s = Inr (i, s')"
    using CreateProposal by (cases "createProposal e d n s") auto
  with a(1) show ?thesis by (rule storage_inv_createProposal)
qed (auto intro: storage_inv_joinDAO storage_inv_addMember storage_inv_castVote storage_inv_grant)

lemma reachable_storage_inv: "reachable B s \<Longrightarrow> storage_inv s"
  by (induction rule: reachable.induct) (auto intro: storage_inv_constructor storage_inv_execute)

lemmas example_defs = alice_def bob_def env_at_def ballot_def dao0_def dao1_def dao2_def
  transact_def constructor_def createProposal_def castVote_def checked_add_def
  onlyMember_def validProposal_def MIN_VOTING_DURATION_def zero_Proposal_def zero_Member_def
  FHE_fromExternal_def FHE_eq_def FHE_select_def FHE_add_def FHE_asEuint32_def Let_def

lemma dao1_created: "createProposal (env_at alice 1000) ''Proposal'' 86400 dao0 = Inr (1, dao1)"
  by (simp add: example_defs)

lemma dao2_voted: "castVote (env_at alice 2000) 1 (ballot b) [] dao1 = Inr (dao2 b)"
  by (simp add: example_defs)

lemma dao2_late: "castVote (env_at alice 90000) 1 (ballot 1) [] (dao2 1) = Inl VotingEndedError"
  by (simp add: example_defs)

lemma dao2_fields: "hasVoted (dao2 2) 1 alice \<and> encryptedYesVotes (proposals (dao2 2) 1) = 0
   \<and> encryptedNoVotes (proposals (dao2 2) 1) = 0 \<and> totalVoters (proposals (dao2 2) 1) = 1"
  by (simp add: example_defs)

lemma reachable_dao0: "reachable B dao0"
  unfolding dao0_def by (rule reachable.init)

lemma reachable_dao1: "reachable B dao1"
proof -
  have x: "execute (env_at alice 1000) (CreateProposal ''Proposal'' 86400) dao0 = Inr dao1"
    by (simp add: dao1_created)
  show ?thesis by (rule reachable.step [OF reachable_dao0 _ x]) simp
qed

lemma reachable_dao2: "b \<in> B \<Longrightarrow> reachable B (dao2 b)"
proof -
  assume b: "b \<in> B"
  have x: "execute (env_at alice 2000) (CastVote 1 (ballot b) []) dao1 = Inr (dao2 b)"
    by (simp add: dao2_voted)
  have y: "ballot_in B (CastVote 1 (ballot b) [])" using b by (simp add: ballot_def)
  show ?thesis by (rule reachable.step [OF reachable_dao1 y x])
qed

lemma reachable_totalVoters:
  "reachable B s \<Longrightarrow> unat (totalVoters (proposals s p)) \<le> 2 ^ 160"
  using reachable_storage_inv [of B s] card_receipts_le [of s p]
  by (simp add: storage_inv_def)

lemma castVote_succeeds:
  assumes "reachable B s" and "validProposal p s" and "onlyMember e s"
    and "startTime (proposals s p) \<le> block_timestamp e"
    and "block_timestamp e \<le> endTime (proposals s p)"
    and "\<not> hasVoted s p (msg_sender e)" and "\<not> executed (proposals s p)"
    and "FHE_fromExternal x pr = Some b"
  shows "\<exists>s'. castVote e p x pr s = Inr s'"
proof -
  have "unat (totalVoters (proposals s p)) \<le> 2 ^ 160"
    using assms(1) by (rule reachable_totalVoters)
  then have "unat (totalVoters (proposals s p)) + unat (1 :: uint256) < 2 ^ 256"
    by simp
  then obtain tv where "checked_add (totalVoters (proposals s p)) 1 = Some tv"
    by (simp add: checked_add_def)
  then show ?thesis using assms(2-8)
    by (simp add: castVote_def Let_def)
qed

text \<open>
  Claim C1. In a reachable state, a ballot of plaintext \<open>b\<close> that \<^verbatim>\<open>castVote\<close> receives
  with its preconditions met (valid proposal id, member caller, block time within the voting
  window, no receipt yet, proposal not executed) is accepted, whatever \<open>b\<close> is. The
  plaintext of \<^verbatim>\<open>encryptedYesVotes\<close> grows by 1 exactly when \<open>b = 1\<close>, the plaintext of
  \<^verbatim>\<open>encryptedNoVotes\<close> grows by 1 exactly when \<open>b = 0\<close>, and a counter that does not
  grow keeps its value; so a ballot other than 0 and 1 changes neither. The counters are
  32-bit: growing by 1 is \<^verbatim>\<open>FHE.add\<close>, which wraps.
\<close>

theorem castVote_counts_ballot:
  assumes "reachable B s" and "validProposal p s" and "onlyMember e s"
    and "startTime (proposals s p) \<le> block_timestamp e"
    and "block_timestamp e \<le> endTime (proposals s p)"
    and "\<not> hasVoted s p (msg_sender e)" and "\<not> executed (proposals s p)"
    and "FHE_fromExternal x pr = Some b"
  shows "\<exists>s'. castVote e p x pr s = Inr s' \<and>
           encryptedYesVotes (proposals s' p) =
             (if b = 1 then encryptedYesVotes (proposals s p) + 1
              else encryptedYesVotes (proposals s p)) \<and>
           encryptedNoVotes (proposals s' p) =
             (if b = 0 then encryptedNoVotes (proposals s p) + 1
              else encryptedNoVotes (proposals s p)) \<and>
           unat (encryptedYesVotes (proposals s' p)) =
             (unat (encryptedYesVotes (proposals s p)) + (if b = 1 then 1 else 0)) mod 2 ^ 32 \<and>
           unat (encryptedNoVotes (proposals s' p)) =
             (unat (encryptedNoVotes (proposals s p)) + (if b = 0 then 1 else 0)) mod 2 ^ 32"
proof -
  obtain s' where s': "castVote e p x pr s = Inr s'"
    using castVote_succeeds [OF assms] by blast
  have b: "b = ext_plain x"
    using assms(8) by (simp add: FHE_fromExternal_def split: if_splits)
  have y: "encryptedYesVotes (proposals s' p) =
          (if b = 1 then encryptedYesVotes (proposals s p) + 1
           else encryptedYesVotes (proposals s p))"
    using castVote_Inr(14) [OF s'] by (simp add: b)
  have n: "encryptedNoVotes (proposals s' p) =
          (if b = 0 then encryptedNoVotes (proposals s p) + 1
           else encryptedNoVotes (proposals s p))"
    using castVote_Inr(15) [OF s'] by (simp add: b)
  have uy: "unat (encryptedYesVotes (proposals s' p)) =
             (unat (encryptedYesVotes (proposals s p)) + (if b = 1 then 1 else 0)) mod 2 ^ 32"
    unfolding y using unsigned_less [of "encryptedYesVotes (proposals s p)", where 'a = nat]
    by (simp add: unat_word_ariths)
  have un: "unat (encryptedNoVotes (proposals s' p)) =
             (unat (encryptedNoVotes (proposals s p)) + (if b = 0 then 1 else 0)) mod 2 ^ 32"
    unfolding n using unsigned_less [of "encryptedNoVotes (proposals s p)", where 'a = nat]
    by (simp add: unat_word_ariths)
  show ?thesis using s' y n uy un by blast
qed

lemma dao1_facts: "validProposal 1 dao1" "onlyMember (env_at alice t) dao1"
  "startTime (proposals dao1 1) = 1000" "endTime (proposals dao1 1) = 87400"
  "\<not> hasVoted dao1 1 a" "\<not> executed (proposals dao1 1)"
  "encryptedYesVotes (proposals dao1 1) = 0" "encryptedNoVotes (proposals dao1 1) = 0"
  by (simp_all add: example_defs)

lemma env_at_simps: "msg_sender (env_at a t) = a" "block_timestamp (env_at a t) = t"
  by (simp_all add: env_at_def)

lemma fromExternal_ballot: "FHE_fromExternal (ballot b) [] = Some b"
  by (simp add: FHE_fromExternal_def ballot_def)

theorem castVote_counts_ballot_witness:
  "(\<exists>s'. castVote (env_at alice 2000) 1 (ballot 7) [] dao1 = Inr s' \<and>
      encryptedYesVotes (proposals s' 1) = 0 \<and> encryptedNoVotes (proposals s' 1) = 0) \<and>
   (\<exists>s'. castVote (env_at alice 2000) 1 (ballot 1) [] dao1 = Inr s' \<and>
      encryptedYesVotes (proposals s' 1) = 1 \<and> encryptedNoVotes (proposals s' 1) = 0) \<and>
   (\<exists>s'. castVote (env_at alice 2000) 1 (ballot 0) [] dao1 = Inr s' \<and>
      encryptedYesVotes (proposals s' 1) = 0 \<and> encryptedNoVotes (proposals s' 1) = 1)"
  using
    castVote_counts_ballot [OF reachable_dao1 [of UNIV] dao1_facts(1) dao1_facts(2) [of 2000]
      _ _ _ dao1_facts(6) fromExternal_ballot [of 7]]
    castVote_counts_ballot [OF reachable_dao1 [of UNIV] dao1_facts(1) dao1_facts(2) [of 2000]
      _ _ _ dao1_facts(6) fromExternal_ballot [of 1]]
    castVote_counts_ballot [OF reachable_dao1 [of UNIV] dao1_facts(1) dao1_facts(2) [of 2000]
      _ _ _ dao1_facts(6) fromExternal_ballot [of 0]]
  by (simp add: dao1_facts env_at_simps) blast

lemma fresh_receipts_empty:
  assumes "storage_inv s" and "createProposal e d n s = Inr (i, s')"
  shows "receipts s i = {}"
proof -
  have "proposalCounter s < i"
    using createProposal_Inr(1) [OF assms(2)] by (rule checked_add_one_gt)
  then show ?thesis
    using assms(1) by (auto simp: storage_inv_def receipts_def validProposal_def)
qed

lemma ballot_in_UNIV: "ballot_in UNIV c"
  by (cases c) simp_all

lemma reachable_with_reachable: "reachable_with s g \<Longrightarrow> reachable UNIV s"
  by (induction rule: reachable_with.induct)
     (auto intro: reachable.init reachable.step [OF _ ballot_in_UNIV])

lemma reachable_has_ballots: "reachable B s \<Longrightarrow> \<exists>g. reachable_with s g"
  by (induction rule: reachable.induct) (auto intro: reachable_with.init reachable_with.step)

lemma card_voters_of_cast:
  assumes "g p m = None"
  shows "card (voters_of (g(p := (g p)(m \<mapsto> b))) p c) =
           (if c = b then Suc (card (voters_of g p c)) else card (voters_of g p c))"
proof -
  have f: "finite (voters_of g p c)" by simp
  have n: "m \<notin> voters_of g p c" using assms by (simp add: voters_of_def)
  have e: "voters_of (g(p := (g p)(m \<mapsto> b))) p c =
           (if c = b then insert m (voters_of g p c) else voters_of g p c)"
    using assms by (auto simp: voters_of_def)
  show ?thesis unfolding e using f n by auto
qed

lemma ballots_inv_constructor: "ballots_inv (constructor e) (\<lambda>_ _. None)"
  by (simp add: ballots_inv_def constructor_def zero_Proposal_def voters_of_def)

lemma ballots_inv_frame:
  assumes "ballots_inv s g" and "hasVoted s' = hasVoted s" and "proposals s' = proposals s"
  shows "ballots_inv s' g"
  using assms by (simp add: ballots_inv_def)

lemma ballots_inv_createProposal:
  assumes "storage_inv s" and "ballots_inv s g" and "createProposal e d n s = Inr (i, s')"
  shows "ballots_inv s' g"
proof -
  note c = createProposal_Inr [OF assms(3)]
  have "receipts s i = {}" using assms(1,3) by (rule fresh_receipts_empty)
  then have none: "\<And>v. g i v = None"
    using assms(2) by (auto simp: ballots_inv_def receipts_def)
  then have e: "\<And>b. voters_of g i b = {}" by (simp add: voters_of_def)
  have "\<And>p. encryptedYesVotes (proposals s' p) = of_nat (card (voters_of g p 1)) \<and>
           encryptedNoVotes (proposals s' p) = of_nat (card (voters_of g p 0))"
  proof -
    fix p
    show "encryptedYesVotes (proposals s' p) = of_nat (card (voters_of g p 1)) \<and>
           encryptedNoVotes (proposals s' p) = of_nat (card (voters_of g p 0))"
    proof (cases "p = i")
      case True then show ?thesis by (simp add: c(8) c(9) e)
    next
      case False then show ?thesis using assms(2) by (simp add: c(6) ballots_inv_def)
    qed
  qed
  moreover have "\<And>p v. hasVoted s' p v \<longleftrightarrow> g p v \<noteq> None"
    using assms(2) by (simp add: c(2) ballots_inv_def)
  ultimately show ?thesis by (simp add: ballots_inv_def)
qed

lemma ballots_inv_castVote:
  assumes "ballots_inv s g" and "castVote e p x pr s = Inr s'"
  shows "ballots_inv s' (g(p := (g p)(msg_sender e \<mapsto> ext_plain x)))"
proof -
  let ?g = "g(p := (g p)(msg_sender e \<mapsto> ext_plain x))"
  note c = castVote_Inr [OF assms(2)]
  have none: "g p (msg_sender e) = None"
    using assms(1) c(5) by (simp add: ballots_inv_def)
  have hv: "\<And>q v. hasVoted s' q v \<longleftrightarrow> ?g q v \<noteq> None"
    using assms(1) by (simp add: c(9) ballots_inv_def)
  have "\<And>q. encryptedYesVotes (proposals s' q) = of_nat (card (voters_of ?g q 1)) \<and>
           encryptedNoVotes (proposals s' q) = of_nat (card (voters_of ?g q 0))"
  proof -
    fix q
    show "encryptedYesVotes (proposals s' q) = of_nat (card (voters_of ?g q 1)) \<and>
           encryptedNoVotes (proposals s' q) = of_nat (card (voters_of ?g q 0))"
    proof (cases "q = p")
      case True
      have y: "encryptedYesVotes (proposals s p) = of_nat (card (voters_of g p 1))"
        and n: "encryptedNoVotes (proposals s p) = of_nat (card (voters_of g p 0))"
        using assms(1) by (simp_all add: ballots_inv_def)
      show ?thesis
        unfolding True c(14) c(15) y n
          card_voters_of_cast [of g p "msg_sender e" "ext_plain x", OF none]
        by auto
    next
      case False
      then have "\<And>b. voters_of ?g q b = voters_of g q b" by (simp add: voters_of_def)
      then show ?thesis using assms(1) False by (simp add: c(13) ballots_inv_def)
    qed
  qed
  with hv show ?thesis by (simp add: ballots_inv_def)
qed

lemma ballots_inv_execute:
  assumes "storage_inv s" and "ballots_inv s g" and "execute e c s = Inr s'"
  shows "ballots_inv s' (record_ballot e c g)"
proof (cases c)
  case JoinDAO
  then have j: "joinDAO e s = Inr s'" using assms(3) by simp
  show ?thesis using JoinDAO
    by (simp add: ballots_inv_frame [OF assms(2) joinDAO_Inr(2) [OF j] joinDAO_Inr(3) [OF j]])
next
  case (AddMember a)
  then have j: "addMember e a s = Inr s'" using assms(3) by simp
  show ?thesis using AddMember
    by (simp add: ballots_inv_frame [OF assms(2) addMember_Inr(3) [OF j] addMember_Inr(4) [OF j]])
next
  case (CreateProposal d n)
  then obtain i where "createProposal e d n s = Inr (i, s')"
    using assms(3) by (cases "createProposal e d n s") auto
  then show ?thesis using assms(1,2) CreateProposal by (simp add: ballots_inv_createProposal)
next
  case (CastVote p x pr)
  then have "castVote e p x pr s = Inr s'" using assms(3) by simp
  then show ?thesis using assms(2) CastVote by (simp add: ballots_inv_castVote)
next
  case (GrantDecryptionAccess p)
  then show ?thesis using assms(2,3) by (simp add: grantDecryptionAccess_def split: if_splits)
qed

lemma reachable_with_inv: "reachable_with s g \<Longrightarrow> ballots_inv s g"
proof (induction rule: reachable_with.induct)
  case (init e) show ?case by (rule ballots_inv_constructor)
next
  case (step s g e c s')
  have "storage_inv s"
    by (rule reachable_storage_inv [OF reachable_with_reachable [OF step(1)]])
  then show ?case using step(3) step(2) by (rule ballots_inv_execute)
qed

lemma receipts_cover:
  assumes "\<forall>p v. hasVoted s p v \<longleftrightarrow> g p v \<noteq> None"
  shows "card (voters_of g p 1) + card (voters_of g p 0) \<le> card (receipts s p)"
proof -
  have "voters_of g p 1 \<union> voters_of g p 0 \<subseteq> receipts s p"
    using assms by (auto simp: receipts_def voters_of_def)
  then have "card (voters_of g p 1 \<union> voters_of g p 0) \<le> card (receipts s p)"
    by (intro card_mono) simp_all
  moreover have "voters_of g p 1 \<inter> voters_of g p 0 = {}"
    by (auto simp: voters_of_def)
  moreover have "finite (voters_of g p 1)" "finite (voters_of g p 0)" by simp_all
  ultimately show ?thesis by (simp add: card_Un_disjoint)
qed

lemma unat_of_nat_le: "unat (of_nat n :: 32 word) \<le> n"
  by (simp add: unat_of_nat)

lemma receipts_split:
  assumes "\<forall>p v. hasVoted s p v \<longleftrightarrow> g p v \<noteq> None"
    and "\<forall>v. hasVoted s p v \<longrightarrow> g p v = Some 0 \<or> g p v = Some 1"
  shows "card (receipts s p) = card (voters_of g p 1) + card (voters_of g p 0)"
proof -
  have "receipts s p = voters_of g p 1 \<union> voters_of g p 0"
    using assms by (auto simp: receipts_def voters_of_def)
  moreover have "voters_of g p 1 \<inter> voters_of g p 0 = {}"
    by (auto simp: voters_of_def)
  moreover have "finite (voters_of g p 1)" "finite (voters_of g p 0)" by simp_all
  ultimately show ?thesis by (simp add: card_Un_disjoint)
qed

text \<open>
  Claim C2, as amended. Every reachable state has a record \<open>g\<close> of the ballots behind
  its receipts, and for every proposal \<open>p\<close>: \<^verbatim>\<open>hasVoted[p][v]\<close> holds exactly when
  \<open>v\<close> has a ballot on \<open>p\<close>; \<^verbatim>\<open>totalVoters\<close> is the number of receipts;
  \<^verbatim>\<open>encryptedYesVotes\<close> is the number of voters whose ballot was 1 and
  \<^verbatim>\<open>encryptedNoVotes\<close> the number of voters whose ballot was 0 (modulo \<open>2 ^ 32\<close>,
  the width of the counters). So a receipt of a ballot 1 is counted in the yes counter
  only, a receipt of a ballot 0 in the no counter only, and a receipt of any other ballot
  in neither. The two plaintexts together never exceed the number of receipts of \<open>p\<close>, and
  they add up to it when every ballot cast on \<open>p\<close> was 0 or 1, whatever was cast on
  other proposals.
\<close>
theorem receipts_and_tally:
  "(reachable UNIV s \<longrightarrow> (\<exists>g. reachable_with s g)) \<and>
   (reachable_with s g \<longrightarrow>
      (hasVoted s p v \<longleftrightarrow> g p v \<noteq> None) \<and>
      unat (totalVoters (proposals s p)) = card (receipts s p) \<and>
      encryptedYesVotes (proposals s p) = of_nat (card (voters_of g p 1)) \<and>
      encryptedNoVotes (proposals s p) = of_nat (card (voters_of g p 0)) \<and>
      unat (encryptedYesVotes (proposals s p)) + unat (encryptedNoVotes (proposals s p))
        \<le> card (receipts s p) \<and>
      ((\<forall>u. hasVoted s p u \<longrightarrow> g p u = Some 0 \<or> g p u = Some 1) \<longrightarrow>
         encryptedYesVotes (proposals s p) + encryptedNoVotes (proposals s p) =
           of_nat (card (receipts s p))))"
proof -
  have a: "reachable UNIV s \<Longrightarrow> \<exists>g. reachable_with s g" by (rule reachable_has_ballots)
  have b: "(hasVoted s p v \<longleftrightarrow> g p v \<noteq> None) \<and>
      unat (totalVoters (proposals s p)) = card (receipts s p) \<and>
      encryptedYesVotes (proposals s p) = of_nat (card (voters_of g p 1)) \<and>
      encryptedNoVotes (proposals s p) = of_nat (card (voters_of g p 0)) \<and>
      unat (encryptedYesVotes (proposals s p)) + unat (encryptedNoVotes (proposals s p))
        \<le> card (receipts s p) \<and>
      ((\<forall>u. hasVoted s p u \<longrightarrow> g p u = Some 0 \<or> g p u = Some 1) \<longrightarrow>
         encryptedYesVotes (proposals s p) + encryptedNoVotes (proposals s p) =
           of_nat (card (receipts s p)))" if w: "reachable_with s g"
  proof -
    have r: "reachable UNIV s" using w by (rule reachable_with_reachable)
    have i: "ballots_inv s g" using w by (rule reachable_with_inv)
    have hv: "\<forall>p v. hasVoted s p v \<longleftrightarrow> g p v \<noteq> None" using i by (simp add: ballots_inv_def)
    have y: "encryptedYesVotes (proposals s p) = of_nat (card (voters_of g p 1))"
      and n: "encryptedNoVotes (proposals s p) = of_nat (card (voters_of g p 0))"
      using i by (simp_all add: ballots_inv_def)
    have t: "unat (totalVoters (proposals s p)) = card (receipts s p)"
      using reachable_storage_inv [OF r] by (simp add: storage_inv_def)
    have l: "unat (encryptedYesVotes (proposals s p)) + unat (encryptedNoVotes (proposals s p))
        \<le> card (receipts s p)"
      using receipts_cover [OF hv, of p] unat_of_nat_le [of "card (voters_of g p 1)"]
        unat_of_nat_le [of "card (voters_of g p 0)"]
      unfolding y n by linarith
    have x: "encryptedYesVotes (proposals s p) + encryptedNoVotes (proposals s p) =
           of_nat (card (receipts s p))"
      if "\<forall>u. hasVoted s p u \<longrightarrow> g p u = Some 0 \<or> g p u = Some 1"
      using receipts_split [OF hv that] by (simp add: y n)
    show ?thesis using hv t y n l x by blast
  qed
  show ?thesis using a b by blast
qed

lemma receipts_dao2: "receipts (dao2 b) 1 = {alice}"
  by (auto simp: receipts_def example_defs)

lemma reachable_with_dao2: "reachable_with (dao2 b) (ballots2 b)"
proof -
  have 0: "reachable_with dao0 (\<lambda>_ _. None)" unfolding dao0_def by (rule reachable_with.init)
  have x1: "execute (env_at alice 1000) (CreateProposal ''Proposal'' 86400) dao0 = Inr dao1"
    by (simp add: dao1_created)
  have 1: "reachable_with dao1 (\<lambda>_ _. None)"
    using reachable_with.step [OF 0 x1] by simp
  have x2: "execute (env_at alice 2000) (CastVote 1 (ballot b) []) dao1 = Inr (dao2 b)"
    by (simp add: dao2_voted)
  show ?thesis
    using reachable_with.step [OF 1 x2] by (simp add: ballots2_def env_at_simps ballot_def)
qed

lemma ballots2_apply: "ballots2 b 1 v = (if v = alice then Some b else None)"
  by (simp add: ballots2_def)

lemma voters_of_ballots2:
  "voters_of (ballots2 b) 1 c = (if c = b then {alice} else {})"
  by (auto simp: voters_of_def ballots2_def)

theorem receipts_and_tally_witness:
  "hasVoted (dao2 1) 1 alice \<and>
   encryptedYesVotes (proposals (dao2 1) 1) = 1 \<and>
   encryptedNoVotes (proposals (dao2 1) 1) = 0 \<and>
   encryptedYesVotes (proposals (dao2 2) 1) = 0 \<and>
   encryptedNoVotes (proposals (dao2 2) 1) = 0 \<and>
   unat (totalVoters (proposals (dao2 2) 1)) = 1 \<and>
   encryptedYesVotes (proposals (dao2 0) 1) + encryptedNoVotes (proposals (dao2 0) 1) = 1"
  using receipts_and_tally [of "dao2 1" "ballots2 1" 1 alice]
    receipts_and_tally [of "dao2 2" "ballots2 2" 1 alice]
    receipts_and_tally [of "dao2 0" "ballots2 0" 1 alice]
    reachable_with_dao2 [of 1] reachable_with_dao2 [of 2] reachable_with_dao2 [of 0]
  by (simp add: voters_of_ballots2 receipts_dao2 ballots2_apply)

text \<open>
  Claim C2 as stated fails: after Alice's ballot of plaintext 2 her receipt is recorded
  and neither counter has counted it.
\<close>

theorem receipt_without_count_counterexample:
  "reachable UNIV (dao2 2) \<and> hasVoted (dao2 2) 1 alice \<and>
   encryptedYesVotes (proposals (dao2 2) 1) = 0 \<and>
   encryptedNoVotes (proposals (dao2 2) 1) = 0"
  using reachable_dao2 [of 2 UNIV] by (simp add: dao2_fields)

lemma execute_keeps:
  assumes "execute e c s = Inr s'"
  shows "proposalCounter s \<le> proposalCounter s'"
    and "\<And>a. isMember (members s a) \<Longrightarrow> isMember (members s' a)"
    and "\<And>p v. hasVoted s p v \<Longrightarrow> hasVoted s' p v"
    and "\<And>p. validProposal p s \<Longrightarrow> startTime (proposals s' p) = startTime (proposals s p)"
    and "\<And>p. validProposal p s \<Longrightarrow> endTime (proposals s' p) = endTime (proposals s p)"
proof -
  have all: "proposalCounter s \<le> proposalCounter s' \<and>
      (\<forall>a. isMember (members s a) \<longrightarrow> isMember (members s' a)) \<and>
      (\<forall>p v. hasVoted s p v \<longrightarrow> hasVoted s' p v) \<and>
      (\<forall>p. validProposal p s \<longrightarrow> startTime (proposals s' p) = startTime (proposals s p) \<and>
            endTime (proposals s' p) = endTime (proposals s p))"
  proof (cases c)
    case JoinDAO
    then have j: "joinDAO e s = Inr s'" using assms by simp
    show ?thesis by (simp add: joinDAO_Inr(2-5) [OF j])
  next
    case (AddMember a)
    then have j: "addMember e a s = Inr s'" using assms by simp
    show ?thesis by (simp add: addMember_Inr(3-6) [OF j])
  next
    case (CreateProposal d n)
    then obtain i where j: "createProposal e d n s = Inr (i, s')"
      using assms by (cases "createProposal e d n s") auto
    note c = createProposal_Inr [OF j]
    have lt: "proposalCounter s < i" using c(1) by (rule checked_add_one_gt)
    then have "\<And>p. validProposal p s \<Longrightarrow> p \<noteq> i" by (auto simp: validProposal_def)
    then show ?thesis using lt by (simp add: c(2-6))
  next
    case (CastVote q x pr)
    then have j: "castVote e q x pr s = Inr s'" using assms by simp
    note c = castVote_Inr [OF j]
    have "\<And>p. startTime (proposals s' p) = startTime (proposals s p) \<and>
              endTime (proposals s' p) = endTime (proposals s p)"
    proof -
      fix p show "startTime (proposals s' p) = startTime (proposals s p) \<and>
              endTime (proposals s' p) = endTime (proposals s p)"
        by (cases "p = q") (simp_all add: c(13) c(16) c(17))
    qed
    then show ?thesis by (simp add: c(9-11))
  next
    case (GrantDecryptionAccess q)
    then show ?thesis using assms by (simp add: grantDecryptionAccess_def split: if_splits)
  qed
  show "proposalCounter s \<le> proposalCounter s'" using all by blast
  show "\<And>a. isMember (members s a) \<Longrightarrow> isMember (members s' a)" using all by blast
  show "\<And>p v. hasVoted s p v \<Longrightarrow> hasVoted s' p v" using all by blast
  show "\<And>p. validProposal p s \<Longrightarrow> startTime (proposals s' p) = startTime (proposals s p)"
    using all by blast
  show "\<And>p. validProposal p s \<Longrightarrow> endTime (proposals s' p) = endTime (proposals s p)"
    using all by blast
qed

lemma execute_keeps_valid:
  "execute e c s = Inr s' \<Longrightarrow> validProposal p s \<Longrightarrow> validProposal p s'"
  using execute_keeps(1) [of e c s s'] by (auto simp: validProposal_def)

lemma tx_steps_keep:
  assumes "tx_steps s s'"
  shows "(validProposal p s \<longrightarrow> validProposal p s' \<and>
            startTime (proposals s' p) = startTime (proposals s p) \<and>
            endTime (proposals s' p) = endTime (proposals s p)) \<and>
         (isMember (members s a) \<longrightarrow> isMember (members s' a)) \<and>
         (hasVoted s p v \<longrightarrow> hasVoted s' p v)"
  using assms unfolding tx_steps_def
proof (induction rule: rtranclp_induct)
  case base
  show ?case by simp
next
  case (step y z)
  from step(2) obtain e c where x: "execute e c y = Inr z" by (auto simp: tx_step_def)
  show ?case
    using step(3) execute_keeps(2-5) [OF x] execute_keeps_valid [OF x] by auto
qed

lemma castVote_receipt_rejected:
  assumes "validProposal p s" and "onlyMember e s" and "hasVoted s p (msg_sender e)"
  shows "castVote e p x pr s =
           Inl (if block_timestamp e < startTime (proposals s p) then VotingNotStarted
                else if endTime (proposals s p) < block_timestamp e then VotingEndedError
                else AlreadyVoted)"
  using assms by (simp add: castVote_def Let_def not_le)

lemma transact_revert: "execute e c s = Inl err \<Longrightarrow> transact e c s = s"
  by (simp add: transact_def)

text \<open>
  Claim C3, as amended. After one successful \<^verbatim>\<open>castVote\<close> by a member on proposal \<open>p\<close>,
  in every state that later successful transactions lead to, every \<^verbatim>\<open>castVote\<close> attempt
  by the same member on \<open>p\<close> fails and leaves the storage as it is. It fails with
  "Already voted" when the block time of the attempt is within the voting window; after
  the end time it fails with "Voting ended" (and with "Voting not started" before the
  start time), because the window is checked before the receipt.
\<close>

theorem second_vote_rejected:
  assumes "castVote e p x pr s = Inr s1" and "tx_steps s1 s2"
    and "msg_sender e' = msg_sender e"
  shows "castVote e' p x' pr' s2 =
           Inl (if block_timestamp e' < startTime (proposals s p) then VotingNotStarted
                else if endTime (proposals s p) < block_timestamp e' then VotingEndedError
                else AlreadyVoted) \<and>
         transact e' (CastVote p x' pr') s2 = s2"
proof -
  note c = castVote_Inr [OF assms(1)]
  have v1: "validProposal p s1" using c(1) by (simp add: validProposal_def c(11))
  have m1: "isMember (members s1 (msg_sender e))" using c(2) by (simp add: onlyMember_def c(10))
  have h1: "hasVoted s1 p (msg_sender e)" by (simp add: c(9))
  note k = tx_steps_keep [OF assms(2), of p "msg_sender e" "msg_sender e"]
  have v2: "validProposal p s2" and m2: "onlyMember e' s2"
    and h2: "hasVoted s2 p (msg_sender e')"
    and t2: "startTime (proposals s2 p) = startTime (proposals s p)"
            "endTime (proposals s2 p) = endTime (proposals s p)"
    using k v1 m1 h1 by (simp_all add: onlyMember_def assms(3) c(16) c(17))
  have r: "castVote e' p x' pr' s2 =
           Inl (if block_timestamp e' < startTime (proposals s p) then VotingNotStarted
                else if endTime (proposals s p) < block_timestamp e' then VotingEndedError
                else AlreadyVoted)"
    using castVote_receipt_rejected [OF v2 m2 h2, of x' pr'] by (simp add: t2)
  then have "execute e' (CastVote p x' pr') s2 =
           Inl (if block_timestamp e' < startTime (proposals s p) then VotingNotStarted
                else if endTime (proposals s p) < block_timestamp e' then VotingEndedError
                else AlreadyVoted)" by simp
  then have "transact e' (CastVote p x' pr') s2 = s2" by (rule transact_revert)
  with r show ?thesis by blast
qed

theorem second_vote_rejected_witness:
  "castVote (env_at alice 3000) 1 (ballot 0) [] (dao2 1) = Inl AlreadyVoted \<and>
   transact (env_at alice 3000) (CastVote 1 (ballot 0) []) (dao2 1) = dao2 1"
proof -
  have s: "tx_steps (dao2 1) (dao2 1)" by (simp add: tx_steps_def)
  have m: "msg_sender (env_at alice 3000) = msg_sender (env_at alice 2000)"
    by (simp add: env_at_simps)
  show ?thesis
    using second_vote_rejected [OF dao2_voted s m, of "ballot 0" "[]"]
    by (simp add: dao1_facts env_at_simps)
qed

text \<open>
  Claim C3 as stated fails: Alice votes at time 2000; her second attempt at time 90000,
  after the end time 87400, is rejected with "Voting ended", not with "Already voted".
\<close>

theorem second_vote_after_deadline_counterexample:
  "castVote (env_at alice 2000) 1 (ballot 1) [] dao1 = Inr (dao2 1) \<and>
   castVote (env_at alice 90000) 1 (ballot 1) [] (dao2 1) = Inl VotingEndedError \<and>
   castVote (env_at alice 90000) 1 (ballot 1) [] (dao2 1) \<noteq> Inl AlreadyVoted"
  by (simp add: dao2_voted dao2_late)

text \<open>
  Claim C6. For a valid proposal id, \<^verbatim>\<open>isVotingEnded\<close> returns whether the block time is
  strictly greater than \<^verbatim>\<open>endTime\<close>. A member's \<^verbatim>\<open>castVote\<close> is rejected with "Voting not
  started" exactly when the block time is below \<^verbatim>\<open>startTime\<close>, and with "Voting ended"
  exactly when it is at least \<^verbatim>\<open>startTime\<close> and above \<^verbatim>\<open>endTime\<close>. With the other
  preconditions met (reachable state, no receipt yet, not executed, a valid input proof)
  it succeeds exactly when \<open>startTime \<le> t \<le> endTime\<close>. At \<open>t = endTime\<close> voting has
  not ended and the vote is accepted.
\<close>

theorem voting_window:
  assumes "validProposal p s"
  shows "isVotingEnded e p s = Inr (block_timestamp e > endTime (proposals s p)) \<and>
         (onlyMember e s \<longrightarrow>
            (castVote e p x pr s = Inl VotingNotStarted
               \<longleftrightarrow> block_timestamp e < startTime (proposals s p)) \<and>
            (castVote e p x pr s = Inl VotingEndedError
               \<longleftrightarrow> startTime (proposals s p) \<le> block_timestamp e \<and>
                   endTime (proposals s p) < block_timestamp e)) \<and>
         (reachable B s \<and> onlyMember e s \<and> \<not> hasVoted s p (msg_sender e) \<and>
          \<not> executed (proposals s p) \<and> FHE_fromExternal x pr = Some b \<longrightarrow>
            ((\<exists>s'. castVote e p x pr s = Inr s')
               \<longleftrightarrow> startTime (proposals s p) \<le> block_timestamp e \<and>
                   block_timestamp e \<le> endTime (proposals s p)) \<and>
            (block_timestamp e = endTime (proposals s p) \<and>
             startTime (proposals s p) \<le> endTime (proposals s p) \<longrightarrow>
               isVotingEnded e p s = Inr False \<and> (\<exists>s'. castVote e p x pr s = Inr s')))"
proof -
  have a: "isVotingEnded e p s = Inr (block_timestamp e > endTime (proposals s p))"
    using assms by (simp add: isVotingEnded_def)
  have b: "onlyMember e s \<Longrightarrow>
            (castVote e p x pr s = Inl VotingNotStarted
               \<longleftrightarrow> block_timestamp e < startTime (proposals s p)) \<and>
            (castVote e p x pr s = Inl VotingEndedError
               \<longleftrightarrow> startTime (proposals s p) \<le> block_timestamp e \<and>
                   endTime (proposals s p) < block_timestamp e)"
    using assms by (auto simp: castVote_def Let_def not_le split: option.splits)
  have c: "(\<exists>s'. castVote e p x pr s = Inr s')
               \<longleftrightarrow> startTime (proposals s p) \<le> block_timestamp e \<and>
                   block_timestamp e \<le> endTime (proposals s p)"
    if h: "reachable B s" "onlyMember e s" "\<not> hasVoted s p (msg_sender e)"
          "\<not> executed (proposals s p)" "FHE_fromExternal x pr = Some b"
  proof
    assume "\<exists>s'. castVote e p x pr s = Inr s'"
    then obtain s' where "castVote e p x pr s = Inr s'" by blast
    then show "startTime (proposals s p) \<le> block_timestamp e \<and>
                   block_timestamp e \<le> endTime (proposals s p)"
      using castVote_Inr(3,4) by blast
  next
    assume w: "startTime (proposals s p) \<le> block_timestamp e \<and>
                   block_timestamp e \<le> endTime (proposals s p)"
    show "\<exists>s'. castVote e p x pr s = Inr s'"
      using castVote_succeeds [OF h(1) assms h(2) _ _ h(3) h(4) h(5)] w by blast
  qed
  show ?thesis using a b c by auto
qed

theorem voting_window_witness:
  "isVotingEnded (env_at alice 87400) 1 dao1 = Inr False \<and>
   (\<exists>s'. castVote (env_at alice 87400) 1 (ballot 1) [] dao1 = Inr s') \<and>
   castVote (env_at alice 87401) 1 (ballot 1) [] dao1 = Inl VotingEndedError \<and>
   castVote (env_at alice 999) 1 (ballot 1) [] dao1 = Inl VotingNotStarted"
proof -
  have f: "FHE_fromExternal (ballot 1) [] = Some 1"
    by (simp add: FHE_fromExternal_def ballot_def)
  show ?thesis
    using voting_window [OF dao1_facts(1), of "env_at alice 87400" "ballot 1" "[]" UNIV 1]
      voting_window [OF dao1_facts(1), of "env_at alice 87401" "ballot 1" "[]" UNIV 1]
      voting_window [OF dao1_facts(1), of "env_at alice 999" "ballot 1" "[]" UNIV 1]
      reachable_dao1 [of UNIV] f
    by (simp add: dao1_facts env_at_simps)
qed

lemma checked_add_iff:
  "(\<exists>c. checked_add a b = Some c) \<longleftrightarrow> unat a + unat b < 2 ^ 256"
  by (simp add: checked_add_def)

lemma checked_add_fits:
  "unat a + unat b < 2 ^ 256 \<Longrightarrow> checked_add a b = Some (a + b)"
  by (simp add: checked_add_def)

lemma createProposal_cases:
  assumes "onlyMember e s" and "descr \<noteq> []"
  shows "createProposal e descr n s =
      (if n < MIN_VOTING_DURATION then Inl DurationTooShort
       else if \<not> unat (proposalCounter s) + 1 < 2 ^ 256 then Inl Overflow
       else if \<not> unat (block_timestamp e) + unat n < 2 ^ 256 then Inl Overflow
       else Inr (proposalCounter s + 1,
              s\<lparr> proposalCounter := proposalCounter s + 1,
                 proposals := (proposals s)
                   (proposalCounter s + 1 :=
                      \<lparr> id_field = proposalCounter s + 1,
                        proposer = msg_sender e,
                        description = descr,
                        startTime = block_timestamp e,
                        endTime = block_timestamp e + n,
                        executed = False,
                        encryptedYesVotes = 0,
                        encryptedNoVotes = 0,
                        totalVoters = 0 \<rparr>),
                 events := events s @
                   [ProposalCreated (proposalCounter s + 1) (msg_sender e) descr
                      (block_timestamp e) (block_timestamp e + n)] \<rparr>))"
  using assms
  by (simp add: createProposal_def checked_add_def FHE_asEuint32_def not_le)

lemma reachable_in_counter: "reachable_in n s \<Longrightarrow> unat (proposalCounter s) \<le> n"
proof (induction rule: reachable_in.induct)
  case (init e) show ?case by (simp add: constructor_def)
next
  case (step n s e c s')
  show ?case
  proof (cases c)
    case (CreateProposal d k)
    then obtain i where j: "createProposal e d k s = Inr (i, s')"
      using step(2) by (cases "createProposal e d k s") auto
    have "unat i = unat (proposalCounter s) + unat (1 :: uint256)"
      using checked_add_Some [OF createProposal_Inr(1) [OF j]] by blast
    then show ?thesis using step(3) by (simp add: createProposal_Inr(4) [OF j])
  next
    case JoinDAO
    then have j: "joinDAO e s = Inr s'" using step(2) by simp
    show ?thesis using step(3) by (simp add: joinDAO_Inr(4) [OF j])
  next
    case (AddMember a)
    then have j: "addMember e a s = Inr s'" using step(2) by simp
    show ?thesis using step(3) by (simp add: addMember_Inr(5) [OF j])
  next
    case (CastVote p x pr)
    then have j: "castVote e p x pr s = Inr s'" using step(2) by simp
    show ?thesis using step(3) by (simp add: castVote_Inr(11) [OF j])
  next
    case (GrantDecryptionAccess p)
    then show ?thesis using step(2,3) by (auto simp: grantDecryptionAccess_def split: if_splits)
  qed
qed

lemma reachable_in_reachable: "reachable_in n s \<Longrightarrow> reachable UNIV s"
  by (induction rule: reachable_in.induct)
     (auto intro: reachable.init reachable.step [OF _ ballot_in_UNIV])

lemma reachable_reachable_in: "reachable B s \<Longrightarrow> \<exists>n. reachable_in n s"
  by (induction rule: reachable.induct) (auto intro: reachable_in.init reachable_in.step)

text \<open>
  Claim C7. In a state that fewer than \<open>2 ^ 256 - 1\<close> transactions after the deployment
  have led to, and at a block time below \<open>2 ^ 64\<close> (the width of the block
  timestamp), \<^verbatim>\<open>createProposal\<close> called by a member with a non-empty description fails
  with "Voting duration too short" when \<^verbatim>\<open>votingDuration\<close> is strictly below 86400
  seconds and succeeds when it is exactly 86400. On success, with any duration, the id is
  \<open>proposalCounter + 1\<close>, it is the new \<^verbatim>\<open>proposalCounter\<close> and the value returned,
  \<^verbatim>\<open>startTime\<close> is the block time and \<^verbatim>\<open>endTime\<close> is the block time plus
  \<^verbatim>\<open>votingDuration\<close>, without wrap-around.
\<close>
theorem createProposal_minimum_duration:
  assumes "reachable_in n s" and "n < 2 ^ 256 - 1" and "unat (block_timestamp e) < 2 ^ 64"
    and "onlyMember e s" and "descr \<noteq> []"
  shows "(d < MIN_VOTING_DURATION \<longrightarrow> createProposal e descr d s = Inl DurationTooShort) \<and>
         (\<exists>s'. createProposal e descr MIN_VOTING_DURATION s = Inr (proposalCounter s + 1, s') \<and>
            unat (proposalCounter s + 1) = unat (proposalCounter s) + 1 \<and>
            proposalCounter s' = proposalCounter s + 1 \<and>
            id_field (proposals s' (proposalCounter s + 1)) = proposalCounter s + 1 \<and>
            startTime (proposals s' (proposalCounter s + 1)) = block_timestamp e \<and>
            endTime (proposals s' (proposalCounter s + 1)) = block_timestamp e + MIN_VOTING_DURATION \<and>
            unat (endTime (proposals s' (proposalCounter s + 1))) = unat (block_timestamp e) + 86400) \<and>
         (\<forall>i s'. createProposal e descr d s = Inr (i, s') \<longrightarrow>
            i = proposalCounter s + 1 \<and> unat i = unat (proposalCounter s) + 1 \<and>
            proposalCounter s' = i \<and> id_field (proposals s' i) = i \<and>
            startTime (proposals s' i) = block_timestamp e \<and>
            endTime (proposals s' i) = block_timestamp e + d \<and>
            unat (endTime (proposals s' i)) = unat (block_timestamp e) + unat d)"
proof -
  note c = createProposal_cases [OF assms(4,5)]
  have pc: "unat (proposalCounter s) + 1 < 2 ^ 256"
    using reachable_in_counter [OF assms(1)] assms(2) by simp
  have tm: "unat (block_timestamp e) + unat MIN_VOTING_DURATION < 2 ^ 256"
    using assms(3) by (simp add: MIN_VOTING_DURATION_def)
  have a: "d < MIN_VOTING_DURATION \<Longrightarrow> createProposal e descr d s = Inl DurationTooShort"
    by (simp add: c)
  have on_success: "i = proposalCounter s + 1 \<and> unat i = unat (proposalCounter s) + 1 \<and>
            proposalCounter s' = i \<and> id_field (proposals s' i) = i \<and>
            startTime (proposals s' i) = block_timestamp e \<and>
            endTime (proposals s' i) = block_timestamp e + k \<and>
            unat (endTime (proposals s' i)) = unat (block_timestamp e) + unat k"
    if h: "createProposal e descr k s = Inr (i, s')" for i s' k
  proof -
    have f: "unat (block_timestamp e) + unat k < 2 ^ 256"
      using h by (simp add: createProposal_cases [OF assms(4,5)] split: if_splits)
    have u1: "unat (proposalCounter s + 1) = unat (proposalCounter s) + 1"
      using checked_add_Some [OF checked_add_fits, of "proposalCounter s" 1] pc by simp
    have u2: "unat (block_timestamp e + k) = unat (block_timestamp e) + unat k"
      using checked_add_Some [OF checked_add_fits, of "block_timestamp e" k] f by simp
    show ?thesis using h u1 u2
      by (auto simp: createProposal_cases [OF assms(4,5)] split: if_splits)
  qed
  obtain s' where s': "createProposal e descr MIN_VOTING_DURATION s = Inr (proposalCounter s + 1, s')"
    using pc tm by (simp add: createProposal_cases [OF assms(4,5)])
  have b: "\<exists>s'. createProposal e descr MIN_VOTING_DURATION s = Inr (proposalCounter s + 1, s') \<and>
            unat (proposalCounter s + 1) = unat (proposalCounter s) + 1 \<and>
            proposalCounter s' = proposalCounter s + 1 \<and>
            id_field (proposals s' (proposalCounter s + 1)) = proposalCounter s + 1 \<and>
            startTime (proposals s' (proposalCounter s + 1)) = block_timestamp e \<and>
            endTime (proposals s' (proposalCounter s + 1)) = block_timestamp e + MIN_VOTING_DURATION \<and>
            unat (endTime (proposals s' (proposalCounter s + 1))) = unat (block_timestamp e) + 86400"
    using on_success [OF s'] s' by (auto simp: MIN_VOTING_DURATION_def)
  show ?thesis using a b on_success by blast
qed

lemma reachable_in_dao0: "reachable_in 0 dao0"
  unfolding dao0_def by (rule reachable_in.init)

theorem createProposal_minimum_duration_witness:
  "createProposal (env_at alice 1000) ''Proposal'' 86399 dao0 = Inl DurationTooShort \<and>
   (\<exists>s'. createProposal (env_at alice 1000) ''Proposal'' 86400 dao0 = Inr (1, s') \<and>
      startTime (proposals s' 1) = 1000 \<and> endTime (proposals s' 1) = 87400)"
proof -
  have m: "onlyMember (env_at alice 1000) dao0"
    by (simp add: example_defs)
  have d: "''Proposal'' \<noteq> []" by simp
  have p: "proposalCounter dao0 = 0" by (simp add: example_defs)
  have n: "(0 :: nat) < 2 ^ 256 - 1" by simp
  have t: "unat (block_timestamp (env_at alice 1000)) < 2 ^ 64" by (simp add: env_at_simps)
  show ?thesis
    using createProposal_minimum_duration [OF reachable_in_dao0 n t m d, of 86399]
    by (simp add: p env_at_simps MIN_VOTING_DURATION_def) blast
qed

text \<open>
  Claim C8, as amended. Membership is monotonic: once \<^verbatim>\<open>members[a].isMember\<close> is true
  it is true after every sequence of successful transactions, and after any one
  transaction, reverted or not. \<^verbatim>\<open>joinDAO\<close> by a member fails with "Already a member".
  \<^verbatim>\<open>addMember\<close> with a target that is already a member fails with "Already a member"
  when its caller is a member, and with "Not a DAO member" when its caller is not: the
  modifier \<^verbatim>\<open>onlyMember\<close> is checked first.
\<close>

theorem membership_monotonic:
  assumes "isMember (members s a)"
  shows "(tx_steps s s' \<longrightarrow> isMember (members s' a)) \<and>
         isMember (members (transact e c s) a) \<and>
         (msg_sender e = a \<longrightarrow> joinDAO e s = Inl AlreadyMember) \<and>
         addMember e a s = Inl (if onlyMember e s then AlreadyMember else NotMember)"
proof -
  have 1: "tx_steps s s' \<Longrightarrow> isMember (members s' a)"
    using tx_steps_keep [of s s' _ a] assms by blast
  have 2: "isMember (members (transact e c s) a)"
  proof (cases "execute e c s")
    case (Inl err) then show ?thesis using assms by (simp add: transact_def)
  next
    case (Inr s'') then show ?thesis using execute_keeps(2) [OF Inr assms] by (simp add: transact_def)
  qed
  have 3: "msg_sender e = a \<Longrightarrow> joinDAO e s = Inl AlreadyMember"
    using assms by (simp add: joinDAO_def)
  have 4: "addMember e a s = Inl (if onlyMember e s then AlreadyMember else NotMember)"
    using assms by (simp add: addMember_def)
  show ?thesis using 1 2 3 4 by blast
qed

theorem membership_monotonic_witness:
  "isMember (members (dao2 1) alice) \<and>
   joinDAO (env_at alice 5000) dao0 = Inl AlreadyMember \<and>
   addMember (env_at alice 5000) alice dao0 = Inl AlreadyMember"
proof -
  have m: "isMember (members dao0 alice)" by (simp add: example_defs)
  have "tx_step dao0 dao1"
    unfolding tx_step_def using dao1_created
    by (intro exI [of _ "env_at alice 1000"] exI [of _ "CreateProposal ''Proposal'' 86400"]) simp
  moreover have "tx_step dao1 (dao2 1)"
    unfolding tx_step_def using dao2_voted [of 1]
    by (intro exI [of _ "env_at alice 2000"] exI [of _ "CastVote 1 (ballot 1) []"]) simp
  ultimately have s: "tx_steps dao0 (dao2 1)" by (simp add: tx_steps_def)
  have o: "onlyMember (env_at alice 5000) dao0" by (simp add: example_defs)
  show ?thesis
    using membership_monotonic [OF m, of "dao2 1" "env_at alice 5000"] s o
    by (simp add: env_at_simps)
qed

text \<open>
  Claim C8 as stated fails: Bob, who is not a member, calls \<^verbatim>\<open>addMember\<close> for Alice, who
  is one; the call is rejected with "Not a DAO member", not with "Already a member".
\<close>

theorem addMember_by_stranger_counterexample:
  "isMember (members dao0 alice) \<and>
   addMember (env_at bob 5000) alice dao0 = Inl NotMember \<and>
   addMember (env_at bob 5000) alice dao0 \<noteq> Inl AlreadyMember"
  by (simp add: alice_def bob_def env_at_def dao0_def constructor_def addMember_def
        onlyMember_def zero_Member_def)

text \<open>
  Claim C9. \<^verbatim>\<open>getProposal\<close> returns the seven fields of the proposal for every id with
  \<open>1 \<le> id \<le> proposalCounter\<close> and fails with "Invalid proposal ID" for every other
  id; in particular it fails for id 0 and for id \<open>proposalCounter + 1\<close>, and it succeeds
  for id \<open>proposalCounter\<close> as soon as one proposal exists.
\<close>

theorem getProposal_range:
  "(0 < i \<and> i \<le> proposalCounter s \<longrightarrow>
      getProposal i s =
        Inr (id_field (proposals s i), proposer (proposals s i), description (proposals s i),
             startTime (proposals s i), endTime (proposals s i), executed (proposals s i),
             totalVoters (proposals s i))) \<and>
   (\<not> (0 < i \<and> i \<le> proposalCounter s) \<longrightarrow> getProposal i s = Inl InvalidProposalId) \<and>
   getProposal 0 s = Inl InvalidProposalId \<and>
   getProposal (proposalCounter s + 1) s = Inl InvalidProposalId \<and>
   (0 < proposalCounter s \<longrightarrow> (\<exists>r. getProposal (proposalCounter s) s = Inr r))"
proof -
  have "\<not> (0 < proposalCounter s + 1 \<and> proposalCounter s + 1 \<le> proposalCounter s)"
    by (auto simp: inc_less_eq_self_iff_eq)
  then show ?thesis by (auto simp: getProposal_def validProposal_def Let_def)
qed

theorem getProposal_range_witness:
  "getProposal 0 dao1 = Inl InvalidProposalId \<and>
   getProposal 2 dao1 = Inl InvalidProposalId \<and>
   (\<exists>r. getProposal 1 dao1 = Inr r)"
proof -
  have p: "proposalCounter dao1 = 1" by (simp add: example_defs)
  show ?thesis using getProposal_range [of 1 dao1] getProposal_range [of 2 dao1]
    by (simp add: p)
qed

text \<open>
  Claim C10. The constructor registers the deploying address as a member and sets
  \<^verbatim>\<open>memberCounter\<close> to 1: in the initial state \<^verbatim>\<open>isMember(deployer)\<close> holds and
  \<^verbatim>\<open>getMemberCount()\<close> returns 1. Without any \<^verbatim>\<open>joinDAO\<close>, the deployer's
  \<^verbatim>\<open>createProposal\<close> (duration at least the minimum, non-empty description, end time
  within \<^verbatim>\<open>uint256\<close>) succeeds with id 1, and the deployer's \<^verbatim>\<open>castVote\<close> on it,
  within the voting window and with a valid input proof, is accepted.
\<close>

theorem constructor_registers_deployer:
  "isMember (members (constructor e) (msg_sender e)) \<and>
   isMember_view (msg_sender e) (constructor e) \<and>
   memberCounter (constructor e) = 1 \<and>
   getMemberCount (constructor e) = 1 \<and>
   (msg_sender e1 = msg_sender e \<and> MIN_VOTING_DURATION \<le> n \<and> descr \<noteq> [] \<and>
    unat (block_timestamp e1) + unat n < 2 ^ 256 \<longrightarrow>
      (\<exists>s1. createProposal e1 descr n (constructor e) = Inr (1, s1) \<and>
         (msg_sender e2 = msg_sender e \<and> block_timestamp e1 \<le> block_timestamp e2 \<and>
          block_timestamp e2 \<le> block_timestamp e1 + n \<longrightarrow>
            (\<exists>s2. castVote e2 1 x (ext_proof x) s1 = Inr s2))))"
proof -
  let ?s = "constructor e"
  have m: "isMember (members ?s (msg_sender e))" by (simp add: constructor_def)
  have k: "memberCounter ?s = 1" by (simp add: constructor_def)
  have rest: "\<exists>s1. createProposal e1 descr n ?s = Inr (1, s1) \<and>
         (msg_sender e2 = msg_sender e \<and> block_timestamp e1 \<le> block_timestamp e2 \<and>
          block_timestamp e2 \<le> block_timestamp e1 + n \<longrightarrow>
            (\<exists>s2. castVote e2 1 x (ext_proof x) s1 = Inr s2))"
    if h: "msg_sender e1 = msg_sender e" "MIN_VOTING_DURATION \<le> n" "descr \<noteq> []"
          "unat (block_timestamp e1) + unat n < 2 ^ 256"
  proof -
    have o: "onlyMember e1 ?s" using m by (simp add: onlyMember_def h(1))
    have p0: "proposalCounter ?s = 0" by (simp add: constructor_def)
    obtain s1 where s1: "createProposal e1 descr n ?s = Inr (1, s1)"
      using h(2,4) by (simp add: createProposal_cases [OF o h(3)] p0 not_less)
    have r1: "reachable UNIV s1"
      by (rule reachable.step [OF reachable.init, of UNIV "CreateProposal descr n" e1 e])
         (simp_all add: s1)
    note c = createProposal_Inr [OF s1]
    have f: "startTime (proposals s1 1) = block_timestamp e1"
            "endTime (proposals s1 1) = block_timestamp e1 + n"
            "\<not> executed (proposals s1 1)"
      using s1 h(2,4) by (auto simp: createProposal_cases [OF o h(3)] p0 not_less split: if_splits)
    have v: "validProposal 1 s1" by (simp add: validProposal_def c(4))
    have "\<exists>s2. castVote e2 1 x (ext_proof x) s1 = Inr s2"
      if g: "msg_sender e2 = msg_sender e" "block_timestamp e1 \<le> block_timestamp e2"
            "block_timestamp e2 \<le> block_timestamp e1 + n"
    proof -
      have o2: "onlyMember e2 s1" using m by (simp add: onlyMember_def g(1) c(3))
      have nv: "\<not> hasVoted s1 1 (msg_sender e2)" by (simp add: c(2) constructor_def)
      have fe: "FHE_fromExternal x (ext_proof x) = Some (ext_plain x)"
        by (simp add: FHE_fromExternal_def)
      show ?thesis
        using castVote_succeeds [OF r1 v o2 _ _ nv f(3) fe] g(2,3) by (simp add: f)
    qed
    then show ?thesis using s1 by blast
  qed
  show ?thesis using m k rest by (simp add: isMember_view_def getMemberCount_def)
qed

theorem constructor_registers_deployer_witness:
  "isMember_view alice dao0 \<and> getMemberCount dao0 = 1 \<and>
   (\<exists>s1. createProposal (env_at alice 1000) ''Proposal'' 86400 dao0 = Inr (1, s1) \<and>
      (\<exists>s2. castVote (env_at alice 2000) 1 (ballot 1) [] s1 = Inr s2))"
  using constructor_registers_deployer [of "env_at alice 1000" "env_at alice 1000" 86400
          "''Proposal''" "env_at alice 2000" "ballot 1"]
  by (simp add: dao0_def env_at_simps MIN_VOTING_DURATION_def ballot_def)

section \<open>Properties of the dashboard hook\<close>

lemma decrypt_step_refs:
  assumes "decrypt_step inp r h = Some (h', r')"
  shows "isVotingRef h' = isVotingRef h"
    and "r' = None \<Longrightarrow> \<not> isDecryptingRef h'"
    and "r' \<noteq> None \<Longrightarrow> isDecryptingRef h' = isDecryptingRef h"
  using assms
  by (cases inp; auto simp: decrypt_finally_def Let_def split: if_splits settled.splits option.splits)+


lemma refresh_load_refs:
  "isVotingRef (fst (refreshProposals_begin a prov h)) = isVotingRef h"
  "isDecryptingRef (fst (refreshProposals_begin a prov h)) = isDecryptingRef h"
  "isVotingRef (refreshProposals_end res h) = isVotingRef h"
  "isDecryptingRef (refreshProposals_end res h) = isDecryptingRef h"
  "isVotingRef (loadVoteHandles_end pid res2 h) = isVotingRef h"
  "isDecryptingRef (loadVoteHandles_end pid res2 h) = isDecryptingRef h"
  by (auto simp: refreshProposals_begin_def refreshProposals_end_def loadVoteHandles_end_def
      split: settled.splits prod.splits)

lemma render_refs:
  "isVotingRef (render c sg inst prov entry h) = isVotingRef h"
  "isDecryptingRef (render c sg inst prov entry h) = isDecryptingRef h"
  by (auto simp: render_def encryptedDAO_memo_def Let_def split: prod.splits option.splits)

lemma render_clear:
  "clearYesVotes (render c sg inst prov entry h) = clearYesVotes h"
  "clearNoVotes (render c sg inst prov entry h) = clearNoVotes h"
  by (auto simp: render_def encryptedDAO_memo_def Let_def split: prod.splits option.splits)

lemma vote_step_refs:
  assumes "vote_step inp r h = Some (h', r')"
  shows "isDecryptingRef h' = isDecryptingRef h"
    and "r' = None \<Longrightarrow> \<not> isVotingRef h'"
    and "r' \<noteq> None \<Longrightarrow> isVotingRef h' = isVotingRef h"
proof -
  have "isDecryptingRef h' = isDecryptingRef h \<and> (r' = None \<longrightarrow> \<not> isVotingRef h') \<and>
        (r' \<noteq> None \<longrightarrow> isVotingRef h' = isVotingRef h)"
  proof (cases inp)
    case (VoteMined res)
    then show ?thesis using assms
      by (auto simp: vote_failed_def vote_finally_def Let_def refreshProposals_begin_def
            split: if_splits settled.splits)
  next
    case (Refreshed res)
    then show ?thesis using assms
      by (auto simp: refresh_load_refs Let_def split: vote_phase.splits if_splits)
  next
    case (HandlesLoaded res)
    then show ?thesis using assms
      by (auto simp: refresh_load_refs vote_done_def vote_finally_def Let_def
            split: vote_phase.splits if_splits)
  qed (use assms in \<open>auto simp: vote_failed_def vote_finally_def Let_def
            split: if_splits settled.splits option.splits\<close>)
  then show "isDecryptingRef h' = isDecryptingRef h"
    and "r' = None \<Longrightarrow> \<not> isVotingRef h'"
    and "r' \<noteq> None \<Longrightarrow> isVotingRef h' = isVotingRef h" by blast+
qed

lemma decryptVotes_refs:
  assumes "decryptVotes h = (h', r')"
  shows "isVotingRef h' = isVotingRef h"
    and "r' = None \<Longrightarrow> h' = h"
    and "r' \<noteq> None \<Longrightarrow> \<not> isDecryptingRef h \<and> isDecryptingRef h'"
  using assms
  by (auto simp: decryptVotes_def Let_def split: if_splits option.splits)

lemma castVote_hook_refs:
  assumes "castVote_hook pid v h = (h', r')"
  shows "isDecryptingRef h' = isDecryptingRef h"
    and "r' = None \<Longrightarrow> h' = h"
    and "r' \<noteq> None \<Longrightarrow> \<not> isVotingRef h \<and> isVotingRef h'"
  using assms
  by (auto simp: castVote_hook_def split: if_splits option.splits)

lemma put_run_single:
  "length rs \<le> 1 \<Longrightarrow> i < length rs \<Longrightarrow>
     put_run i r rs = (case r of None \<Rightarrow> [] | Some r' \<Rightarrow> [r'])"
  by (cases rs) (auto simp: put_run_def split: option.splits)

lemma initial_hook_refs:
  "\<not> isDecryptingRef (initial_hook c sg inst prov entry wc ws)"
  "\<not> isVotingRef (initial_hook c sg inst prov entry wc ws)"
  by (auto simp: initial_hook_def encryptedDAO_memo_def Let_def split: prod.splits option.splits)

lemma session_inv_start:
  "session_inv \<lparr> hook = initial_hook c sg inst prov entry wc ws, decryptRuns = [], voteRuns = [] \<rparr>"
  by (simp add: session_inv_def initial_hook_refs)

lemma session_inv_step:
  assumes "session_inv \<sigma>"
  shows "session_inv (session_step ev \<sigma>)"
proof (cases ev)
  case CallDecryptVotes
  obtain h r where d: "decryptVotes (hook \<sigma>) = (h, r)" by (cases "decryptVotes (hook \<sigma>)")
  show ?thesis
  proof (cases r)
    case None
    then show ?thesis using assms d decryptVotes_refs(2) [OF d] CallDecryptVotes by simp
  next
    case (Some r')
    then show ?thesis
      using assms d decryptVotes_refs(1,3) [OF d] CallDecryptVotes
      by (simp add: session_inv_def)
  qed
next
  case (CallCastVote pid v)
  obtain h r where d: "castVote_hook pid v (hook \<sigma>) = (h, r)"
    by (cases "castVote_hook pid v (hook \<sigma>)")
  show ?thesis
  proof (cases r)
    case None
    then show ?thesis using assms d castVote_hook_refs(2) [OF d] CallCastVote by simp
  next
    case (Some r')
    then show ?thesis
      using assms d castVote_hook_refs(1,3) [OF d] CallCastVote
      by (simp add: session_inv_def)
  qed
next
  case (DecryptSettles i inp)
  show ?thesis
  proof (cases "i < length (decryptRuns \<sigma>)")
    case False
    then show ?thesis using assms DecryptSettles by simp
  next
    case True
    show ?thesis
    proof (cases "decrypt_step inp (decryptRuns \<sigma> ! i) (hook \<sigma>)")
      case None
      then show ?thesis using assms DecryptSettles True by simp
    next
      case (Some hr)
      obtain h r where hr: "hr = (h, r)" by (cases hr)
      note f = decrypt_step_refs [OF Some [unfolded hr]]
      have l: "length (decryptRuns \<sigma>) \<le> 1" using assms by (simp add: session_inv_def)
      have ne: "decryptRuns \<sigma> \<noteq> []" using True by auto
      show ?thesis
        using assms DecryptSettles True Some hr f ne
        by (cases r) (simp_all add: session_inv_def put_run_single [OF l True])
    qed
  qed
next
  case (VoteSettles i inp)
  show ?thesis
  proof (cases "i < length (voteRuns \<sigma>)")
    case False
    then show ?thesis using assms VoteSettles by simp
  next
    case True
    show ?thesis
    proof (cases "vote_step inp (voteRuns \<sigma> ! i) (hook \<sigma>)")
      case None
      then show ?thesis using assms VoteSettles True by simp
    next
      case (Some hr)
      obtain h r where hr: "hr = (h, r)" by (cases hr)
      note f = vote_step_refs [OF Some [unfolded hr]]
      have l: "length (voteRuns \<sigma>) \<le> 1" using assms by (simp add: session_inv_def)
      have ne: "voteRuns \<sigma> \<noteq> []" using True by auto
      show ?thesis
        using assms VoteSettles True Some hr f ne
        by (cases r) (simp_all add: session_inv_def put_run_single [OF l True])
    qed
  qed
next
  case (Renders c sg inst prov entry)
  then show ?thesis using assms by (simp add: session_inv_def render_refs)
next
  case (WalletChanges c sg)
  then show ?thesis using assms by (simp add: session_inv_def)
next
  case (PageLoadsHandles pid res)
  then show ?thesis using assms by (simp add: session_inv_def refresh_load_refs)
next
  case (PageRefreshes res)
  then show ?thesis using assms
    by (simp add: session_inv_def refreshProposals_begin_def refresh_load_refs)
next
  case (OtherCallbackReports m)
  then show ?thesis using assms by (simp add: session_inv_def)
qed

lemma session_reachable_inv: "session_reachable \<sigma> \<Longrightarrow> session_inv \<sigma>"
  by (induction rule: session_reachable.induct) (auto intro: session_inv_start session_inv_step)


lemma decryptVotes_guard: "isDecryptingRef h \<Longrightarrow> decryptVotes h = (h, None)"
  by (simp add: decryptVotes_def)

lemma castVote_hook_guard: "isVotingRef h \<Longrightarrow> castVote_hook pid v h = (h, None)"
  by (simp add: castVote_hook_def)

text \<open>
  Claim C5. In every reachable session at most one decryption request and at most one
  vote request are in flight. While a decryption request is in flight
  \<^verbatim>\<open>isDecryptingRef\<close> is set, and \<^verbatim>\<open>decryptVotes\<close> returns at once: the hook is
  unchanged and no request is started. The same holds for \<^verbatim>\<open>castVote\<close> and
  \<^verbatim>\<open>isVotingRef\<close> while a vote request is in flight.
\<close>
theorem one_request_in_flight:
  assumes "session_reachable \<sigma>"
  shows "length (decryptRuns \<sigma>) \<le> 1 \<and> length (voteRuns \<sigma>) \<le> 1 \<and>
         (decryptRuns \<sigma> \<noteq> [] \<longrightarrow>
            decryptVotes (hook \<sigma>) = (hook \<sigma>, None) \<and> session_step CallDecryptVotes \<sigma> = \<sigma>) \<and>
         (voteRuns \<sigma> \<noteq> [] \<longrightarrow>
            castVote_hook proposalId voteValue (hook \<sigma>) = (hook \<sigma>, None) \<and>
            session_step (CallCastVote proposalId voteValue) \<sigma> = \<sigma>) \<and>
         (isDecryptingRef (hook \<sigma>) \<longleftrightarrow> decryptRuns \<sigma> \<noteq> []) \<and>
         (isVotingRef (hook \<sigma>) \<longleftrightarrow> voteRuns \<sigma> \<noteq> [])"
proof -
  have i: "session_inv \<sigma>" using assms by (rule session_reachable_inv)
  have d: "decryptVotes (hook \<sigma>) = (hook \<sigma>, None) \<and> session_step CallDecryptVotes \<sigma> = \<sigma>"
    if "decryptRuns \<sigma> \<noteq> []"
    using that i by (simp add: session_inv_def decryptVotes_guard)
  have v: "castVote_hook proposalId voteValue (hook \<sigma>) = (hook \<sigma>, None) \<and>
            session_step (CallCastVote proposalId voteValue) \<sigma> = \<sigma>"
    if "voteRuns \<sigma> \<noteq> []"
    using that i by (simp add: session_inv_def castVote_hook_guard)
  show ?thesis using i d v by (simp add: session_inv_def)
qed

lemma session_run_reachable:
  "session_reachable \<sigma> \<Longrightarrow> session_reachable (session_run evs \<sigma>)"
  unfolding session_run_def
  by (induction evs arbitrary: \<sigma>) (auto intro: session_reachable.event)

lemma session0_reachable: "session_reachable session0"
  unfolding session0_def by (rule session_reachable.start)

lemma loaded_ex_reachable: "session_reachable loaded_ex"
  unfolding loaded_ex_def by (rule session_run_reachable [OF session0_reachable])

lemma decrypting_ex_reachable: "session_reachable decrypting_ex"
  unfolding decrypting_ex_def
  by (rule session_run_reachable [OF session_reachable.event [OF loaded_ex_reachable]])

lemma voting_ex_reachable: "session_reachable voting_ex"
  unfolding voting_ex_def by (rule session_reachable.event [OF session0_reachable])

lemmas session_ex_defs = decrypting_ex_def switched_ex_def restored_ex_def loaded_ex_def
  to_userDecrypt_def voting_ex_def session0_def session_run_def
  initial_hook_def encryptedDAO_memo_def getEncryptedDAOByChainId_def ZeroAddress_def
  render_def capture_def truthy_number_def
  loadVoteHandles_begin_def loadVoteHandles_end_def decryptVotes_def castVote_hook_def
  truthy_string_def truthy_bigint_def put_run_def isStale_decrypt_def sameChain_def
  sameSigner_def decrypt_finally_def signature_ex_def values_ex_def Let_def




lemma decrypting_ex_runs:
  "decryptRuns decrypting_ex = [run_ex\<lparr> d_phase := AwaitUserDecrypt \<rparr>]"
  by (simp add: session_ex_defs run_ex_def)

lemma voting_ex_runs: "voteRuns voting_ex \<noteq> []"
  by (simp add: session_ex_defs)

theorem one_request_in_flight_witness:
  "length (decryptRuns decrypting_ex) \<le> 1 \<and> length (voteRuns decrypting_ex) \<le> 1 \<and>
   session_step CallDecryptVotes decrypting_ex = decrypting_ex \<and>
   isDecryptingRef (hook decrypting_ex) \<and>
   length (voteRuns voting_ex) \<le> 1 \<and>
   session_step (CallCastVote 1 0) voting_ex = voting_ex \<and>
   isVotingRef (hook voting_ex)"
  using one_request_in_flight [OF decrypting_ex_reachable]
    one_request_in_flight [OF voting_ex_reachable, of 1 0]
  by (simp add: decrypting_ex_runs voting_ex_runs)

















end
